theory Spec2Isabelle
  imports Complex_Main "HOL-Library.Sublist"
begin

section \<open>Numbers, errors and the file system\<close>

text \<open>
  The bots are TypeScript. A JavaScript \<open>number\<close> is modelled as a \<^typ>\<open>real\<close>: the
  claims verified here are about the arithmetic the code writes down, not about IEEE
  rounding. Where JavaScript would produce \<open>NaN\<close>, \<open>undefined\<close> or throw, the model says
  so with an explicit value instead of using HOL's total division or list access.
\<close>

datatype error =
    WriteError          \<comment> \<open>\<open>fs.writeFile\<close> rejected\<close>
  | RequestError        \<comment> \<open>a request to the Recall API rejected (\<open>getPrice\<close>, \<open>executeTrade\<close>)\<close>
  | TypeError           \<comment> \<open>a property read on \<open>undefined\<close>\<close>
  | NotANumber          \<comment> \<open>the JavaScript result contains \<open>NaN\<close> or \<open>undefined\<close>\<close>

section \<open>The position store (\<open>trade_manager.ts\<close>)\<close>

text \<open>\<open>interface OpenTrade\<close>. The property \<open>id\<close> is named \<open>id'\<close> here.\<close>

record OpenTrade =
  id' :: string
  fromToken :: string
  fromTokenSymbol :: string
  fromChain :: string
  fromSpecificChain :: string
  fromAmount :: real
  toToken :: string
  toTokenSymbol :: string
  toChain :: string
  toSpecificChain :: string
  toAmount :: string
  price :: real
  tradeAmountUsd :: real
  timestamp :: string
  competitionId :: string
  agentId :: string
  reason :: string
  error :: "string option"

text \<open>
  A backing file such as \<open>open_trades.json\<close> either does not exist, holds the JSON
  array of some list of trades, or holds something that is not such an array (a write that
  failed half way may leave that behind).
\<close>

datatype 'a json_file = Absent | Holds "'a list" | Corrupt

text \<open>
  What one call of \<open>fs.writeFile\<close> does is the environment's choice: it succeeds, or
  it rejects and leaves some file content behind.
\<close>

datatype 'a write_outcome = WriteOk | WriteFails "'a json_file"

datatype console_line =
    LogAdded string nat
  | LogRemoved string nat
  | WarnNotFound string
  | ErrorSaving

text \<open>
  The module state: the module-level variable \<open>openTrades\<close>, the file, the number of
  \<open>fs.writeFile\<close> calls issued so far and the console output.
\<close>

record store =
  openTrades :: "OpenTrade list"
  disk :: "OpenTrade json_file"
  writes :: nat
  console :: "console_line list"

definition writeFile :: "OpenTrade write_outcome \<Rightarrow> OpenTrade list \<Rightarrow> store \<Rightarrow> (error + unit) \<times> store" where
  "writeFile w content s =
     (case w of
        WriteOk \<Rightarrow> (Inr (), s\<lparr>disk := Holds content, writes := Suc (writes s)\<rparr>)
      | WriteFails f \<Rightarrow> (Inl WriteError, s\<lparr>disk := f, writes := Suc (writes s)\<rparr>))"

text \<open>\<open>saveOpenTrades\<close>: the \<open>try\<close>/\<open>catch\<close> logs a rejected write and returns normally.\<close>

definition saveOpenTrades :: "OpenTrade write_outcome \<Rightarrow> store \<Rightarrow> (error + unit) \<times> store" where
  "saveOpenTrades w s =
     (case writeFile w (openTrades s) s of
        (Inr u, s') \<Rightarrow> (Inr (), s')
      | (Inl e, s') \<Rightarrow> (Inr (), s'\<lparr>console := console s' @ [ErrorSaving]\<rparr>))"

definition getOpenTrades :: "store \<Rightarrow> OpenTrade list" where
  "getOpenTrades s = openTrades s"

text \<open>
  \<open>addOpenTrade\<close>: push, then \<open>await saveOpenTrades()\<close>, then log. An error coming out of
  the awaited call would leave the function there.
\<close>

definition addOpenTrade :: "OpenTrade write_outcome \<Rightarrow> OpenTrade \<Rightarrow> store \<Rightarrow> (error + unit) \<times> store" where
  "addOpenTrade w trade s =
     (let s1 = s\<lparr>openTrades := openTrades s @ [trade]\<rparr> in
      case saveOpenTrades w s1 of
        (Inl e, s2) \<Rightarrow> (Inl e, s2)
      | (Inr u, s2) \<Rightarrow>
          (Inr (), s2\<lparr>console := console s2 @
             [LogAdded (toTokenSymbol trade) (length (openTrades s2))]\<rparr>))"

text \<open>
  \<open>removeOpenTrade\<close>: the variable is reassigned to the filtered array in every case; the
  file is saved only when the array became shorter.
\<close>

definition removeOpenTrade :: "OpenTrade write_outcome \<Rightarrow> string \<Rightarrow> store \<Rightarrow> (error + unit) \<times> store" where
  "removeOpenTrade w tradeId s =
     (let initialLength = length (openTrades s);
          s1 = s\<lparr>openTrades := filter (\<lambda>trade. id' trade \<noteq> tradeId) (openTrades s)\<rparr>
      in if length (openTrades s1) < initialLength then
           (case saveOpenTrades w s1 of
              (Inl e, s2) \<Rightarrow> (Inl e, s2)
            | (Inr u, s2) \<Rightarrow>
                (Inr (), s2\<lparr>console := console s2 @
                   [LogRemoved tradeId (length (openTrades s2))]\<rparr>))
         else (Inr (), s1\<lparr>console := console s1 @ [WarnNotFound tradeId]\<rparr>))"

text \<open>Concrete data used to run the definitions.\<close>

definition trade0 :: OpenTrade where
  "trade0 = \<lparr> id' = ''t-1'', fromToken = ''0xA0b86991c6218b36c1d19D4a2e9Eb0cE3606eB48'',
      fromTokenSymbol = ''USDC'', fromChain = ''evm'', fromSpecificChain = ''eth'',
      fromAmount = 10, toToken = ''0x7Fc66500c84A76Ad7e9c93437bFc5Ac33E2DDaE9'',
      toTokenSymbol = ''AAVE'', toChain = ''evm'', toSpecificChain = ''eth'',
      toAmount = ''0.1'', price = 100, tradeAmountUsd = 10,
      timestamp = ''2025-01-01T00:00:00.000Z'', competitionId = ''N/A'', agentId = ''N/A'',
      reason = ''AI-driven momentum trade. Confidence: 80%.'', error = None \<rparr>"

definition store0 :: store where
  "store0 = \<lparr> openTrades = [], disk = Holds [], writes = 0, console = [] \<rparr>"

definition trade1 :: OpenTrade where
  "trade1 = trade0\<lparr> id' := ''t-2'', toTokenSymbol := ''WETH'' \<rparr>"

definition store2 :: store where
  "store2 = \<lparr> openTrades = [trade0, trade1, trade0\<lparr>price := 7\<rparr>], disk = Absent,
               writes = 3, console = [] \<rparr>"

section \<open>The indicator library\<close>

text \<open>
  A \<open>period\<close> is a count of samples, a natural number. Arrays are lists; every index the
  loops below read is inside the list it reads (the guards at the top of each function see
  to that), except where a comment says what JavaScript does instead.
\<close>

text \<open>
  \<open>calculateEMA\<close>. With an empty series and \<open>period = 0\<close> the guard lets the call
  through and JavaScript returns \<open>[undefined]\<close>.
\<close>

definition calculateEMA :: "real list \<Rightarrow> nat \<Rightarrow> error + real list" where
  "calculateEMA prices period =
     (if length prices < period then Inr []
      else case prices of
        [] \<Rightarrow> Inl NotANumber
      | p0 # _ \<Rightarrow>
          let k = 2 / (real period + 1) in
          Inr (fold (\<lambda>i emaArray. emaArray @ [prices ! i * k + emaArray ! (i - 1) * (1 - k)])
                 [1..<length prices] [p0]))"

text \<open>
  \<open>calculateRSI\<close>. The first loop accumulates gains and losses over the first \<open>period\<close>
  changes, the second smooths them. With \<open>period = 0\<close> and a non-empty series the seed
  averages are \<open>0/0\<close>.
\<close>

definition calculateRSI :: "real list \<Rightarrow> nat \<Rightarrow> error + real list" where
  "calculateRSI prices period =
     (if length prices \<le> period then Inr []
      else if period = 0 then Inl NotANumber
      else
        let (sumGain, sumLoss) =
              fold (\<lambda>i (avgGain, avgLoss).
                      let change = prices ! i - prices ! (i - 1) in
                      if change > 0 then (avgGain + change, avgLoss)
                      else (avgGain, avgLoss - change))
                   [1..<Suc period] (0, 0);
            avgGain = sumGain / real period;
            avgLoss = sumLoss / real period;
            rs = (if avgLoss = 0 then 100 else avgGain / avgLoss);
            rsiValues = [100 - 100 / (1 + rs)]
        in Inr (snd (fold (\<lambda>i ((avgGain, avgLoss), rsiValues).
                      let change = prices ! i - prices ! (i - 1);
                          gain = (if change > 0 then change else 0);
                          loss = (if change < 0 then - change else 0);
                          avgGain' = (avgGain * (real period - 1) + gain) / real period;
                          avgLoss' = (avgLoss * (real period - 1) + loss) / real period;
                          rs = (if avgLoss' = 0 then 100 else avgGain' / avgLoss')
                      in ((avgGain', avgLoss'), rsiValues @ [100 - 100 / (1 + rs)]))
                   [Suc period..<length prices] ((avgGain, avgLoss), rsiValues))))"

text \<open>
  The simplified \<open>calculateRSI\<close> that \<open>combined_strategy_bot.ts\<close> also contains: it
  returns one number, and returns 100 when the average loss is zero. With \<open>period = 0\<close>
  the averages are \<open>x/0\<close>; that case is reported as \<open>NotANumber\<close> unless both sums are
  proper infinities, which the model does not follow.
\<close>

definition calculateRSI_simplified :: "real list \<Rightarrow> nat \<Rightarrow> error + real" where
  "calculateRSI_simplified prices period =
     (let (gains, losses) =
            fold (\<lambda>i (gains, losses).
                    let diff = prices ! i - prices ! (i - 1) in
                    if diff \<ge> 0 then (gains + diff, losses) else (gains, losses - diff))
                 [1..<length prices] (0, 0)
      in if period = 0 then Inl NotANumber
         else
           let avgGain = gains / real period;
               avgLoss = losses / real period
           in if avgLoss = 0 then Inr 100
              else Inr (100 - 100 / (1 + avgGain / avgLoss)))"

text \<open>
  \<open>calculateATR\<close>, the variant that returns the whole series
  (\<open>combined_strategy_bot.ts\<close>). Its input points carry \<open>high\<close>, \<open>low\<close> and \<open>price\<close>
  (here \<open>price'\<close>).
\<close>

record PricePoint =
  timestamp' :: int
  price' :: real
  high :: real
  low :: real

definition calculateATR_array :: "PricePoint list \<Rightarrow> nat \<Rightarrow> error + real list" where
  "calculateATR_array data period =
     (if length data \<le> period then Inr []
      else if period = 0 then Inl NotANumber
      else
        let trValues =
              map (\<lambda>i. let h = high (data ! i);
                            l = low (data ! i);
                            prevClose = price' (data ! (i - 1))
                        in max (h - l) (max \<bar>h - prevClose\<bar> \<bar>l - prevClose\<bar>))
                  [1..<length data];
            sum = fold (\<lambda>i sum. sum + trValues ! i) [0..<period] 0;
            atrValues = [sum / real period]
        in Inr (fold (\<lambda>i atrValues.
                        atrValues @ [(last atrValues * (real period - 1) + trValues ! i)
                                       / real period])
                     [period..<length trValues] atrValues))"

text \<open>
  \<open>calculateATR\<close>, the variant that returns one number (\<open>trend_pullback_bot.ts\<close>). Its
  input rows are arrays \<open>[timestamp, open, high, low, close]\<close>, read by index; a read past
  the end of a row is \<open>undefined\<close> and makes the result \<open>NaN\<close>.
\<close>

definition rowAt :: "real list \<Rightarrow> nat \<Rightarrow> real option" where
  "rowAt row i = (if i < length row then Some (row ! i) else None)"

definition trueRange :: "real list \<Rightarrow> real list \<Rightarrow> real option" where
  "trueRange row prevRow =
     (case (rowAt row 2, rowAt row 3, rowAt prevRow 4) of
        (Some h, Some l, Some prevClose) \<Rightarrow>
          (let tr1 = h - l; tr2 = \<bar>h - prevClose\<bar>; tr3 = \<bar>l - prevClose\<bar>
           in Some (max tr1 (max tr2 tr3)))
      | _ \<Rightarrow> None)"

definition calculateATR_scalar :: "real list list \<Rightarrow> nat \<Rightarrow> error + real" where
  "calculateATR_scalar ohlcData period =
     (if length ohlcData < period then Inr 0
      else if period = 0 then Inl NotANumber
      else
        case those (map (\<lambda>i. trueRange (ohlcData ! i) (ohlcData ! (i - 1)))
                        [1..<length ohlcData]) of
          None \<Rightarrow> Inl NotANumber
        | Some trueRanges \<Rightarrow>
            let atr = fold (\<lambda>tr sum. sum + tr) (take period trueRanges) 0 / real period
            in Inr (fold (\<lambda>i atr. (atr * (real period - 1) + trueRanges ! i) / real period)
                         [period..<length trueRanges] atr))"

text \<open>Concrete series used to run the indicator functions.\<close>

definition rising15 :: "real list" where
  "rising15 = [1, 2, 3, 4, 5, 6, 7, 8, 9, 10, 11, 12, 13, 14, 15]"

definition ohlc14 :: "real list list" where
  "ohlc14 = map (\<lambda>t. [t, 10, 12, 8, 10]) [1, 2, 3, 4, 5, 6, 7, 8, 9, 10, 11, 12, 13, 14]"

definition points14 :: "PricePoint list" where
  "points14 = map (\<lambda>t. \<lparr> timestamp' = t, price' = 10, high = 12, low = 8 \<rparr>)
                  [1, 2, 3, 4, 5, 6, 7, 8, 9, 10, 11, 12, 13, 14]"

section \<open>Parsing the confidence score (\<open>getTradeConfidence\<close>, \<open>trend_pullback_bot.ts\<close>)\<close>

text \<open>
  Strings are lists of 8-bit characters. The character class \<open>[0-9.]\<close>:
\<close>

definition isScoreChar :: "char \<Rightarrow> bool" where
  "isScoreChar c = (c \<in> set ''0123456789.'')"

text \<open>
  A regular expression of the shape \<open>open([0-9.]+)close\<close>, tried at the start of \<open>s\<close>:
  the literal \<open>open\<close>, then the longest run of class characters (at least one), then the
  literal \<open>close\<close>. The result is the captured group and what follows the match. Both
  expressions of the source have a \<open>close\<close> that starts with a character outside the
  class (\<open><\<close> or \<open>*\<close>), so giving back characters of the run can never make \<open>close\<close>
  match and the longest run is the only candidate.
\<close>

definition matchHere :: "string \<Rightarrow> string \<Rightarrow> string \<Rightarrow> (string \<times> string) option" where
  "matchHere opn cls s =
     (if prefix opn s then
        let body = drop (length opn) s;
            grp = takeWhile isScoreChar body;
            rest = dropWhile isScoreChar body
        in if grp \<noteq> [] \<and> prefix cls rest then Some (grp, drop (length cls) rest) else None
      else None)"

text \<open>
  The leftmost match, as \<open>String.prototype.match\<close> and \<open>replace\<close> with a non-global
  expression find it: the text before the match, the group, the text after the match.
\<close>

fun regexSearch :: "string \<Rightarrow> string \<Rightarrow> string \<Rightarrow> string \<Rightarrow> (string \<times> string \<times> string) option" where
  "regexSearch opn cls skipped [] =
     (case matchHere opn cls [] of
        Some (grp, post) \<Rightarrow> Some (skipped, grp, post)
      | None \<Rightarrow> None)"
| "regexSearch opn cls skipped (c # s) =
     (case matchHere opn cls (c # s) of
        Some (grp, post) \<Rightarrow> Some (skipped, grp, post)
      | None \<Rightarrow> regexSearch opn cls (skipped @ [c]) s)"

text \<open>\<open>/<score>([0-9.]+)<\/score>/\<close> and \<open>/confidence score of \*\*([0-9.]+)\*\*/\<close>.\<close>

definition scoreTag :: "string \<Rightarrow> (string \<times> string \<times> string) option" where
  "scoreTag s = regexSearch ''<score>'' ''</score>'' [] s"

definition scoreSentence :: "string \<Rightarrow> (string \<times> string \<times> string) option" where
  "scoreSentence s = regexSearch ''confidence score of **'' ''**'' [] s"

text \<open>
  \<open>parseFloat\<close> on a string of digits and dots, which is all a captured group can be:
  the longest prefix \<open>digits [. digits]\<close> is read as a decimal; without any digit in it
  the result is \<open>NaN\<close>.
\<close>

datatype number = Num real | NaN

definition isDigit :: "char \<Rightarrow> bool" where
  "isDigit c = (c \<in> set ''0123456789'')"

definition digitValue :: "char \<Rightarrow> nat" where
  "digitValue c = length (takeWhile (\<lambda>d. d \<noteq> c) ''0123456789'')"

definition digitsValue :: "string \<Rightarrow> nat" where
  "digitsValue ds = fold (\<lambda>c n. 10 * n + digitValue c) ds 0"

definition parseFloat :: "string \<Rightarrow> number" where
  "parseFloat s =
     (let intPart = takeWhile isDigit s;
          rest = dropWhile isDigit s;
          fracPart = (case rest of
                        [] \<Rightarrow> []
                      | c # r \<Rightarrow> if c = CHR ''.'' then takeWhile isDigit r else [])
      in if intPart = [] \<and> fracPart = [] then NaN
         else Num (real (digitsValue intPart)
                   + real (digitsValue fracPart) / 10 ^ length fracPart))"

text \<open>\<open>String.prototype.trim\<close>, for the white space of ASCII.\<close>

definition isWhiteSpace :: "char \<Rightarrow> bool" where
  "isWhiteSpace c = (c \<in> {CHR '' '', CHR 0x09, CHR 0x0A, CHR 0x0B, CHR 0x0C, CHR 0x0D})"

definition trim :: "string \<Rightarrow> string" where
  "trim s = rev (dropWhile isWhiteSpace (rev (dropWhile isWhiteSpace s)))"

text \<open>
  What the request to the agent endpoint comes back with: the \<open>fetch\<close> or the decoding
  of the body throws; the status is not 2xx; or a body arrives, whose \<open>response\<close> property
  is a string or is not (then \<open>aiResponse.match\<close> throws).
\<close>

datatype fetch_outcome = Throws | NotOk | Body "string option"

text \<open>\<open>getTradeConfidence\<close> returns the pair \<open>{ confidence, reason }\<close>.\<close>

definition getTradeConfidence :: "fetch_outcome \<Rightarrow> number \<times> string" where
  "getTradeConfidence outcome =
     (case outcome of
        Throws \<Rightarrow> (Num 0, ''Exception caught during confidence check.'')
      | NotOk \<Rightarrow> (Num 0, ''Error fetching confidence.'')
      | Body None \<Rightarrow> (Num 0, ''Exception caught during confidence check.'')
      | Body (Some aiResponse) \<Rightarrow>
          let confidence =
                (case scoreTag aiResponse of
                   Some (pre, grp, post) \<Rightarrow> parseFloat grp
                 | None \<Rightarrow>
                     (case scoreSentence aiResponse of
                        Some (pre, grp, post) \<Rightarrow> parseFloat grp
                      | None \<Rightarrow> Num 0));
              reason =
                trim (case scoreTag aiResponse of
                        Some (pre, grp, post) \<Rightarrow> pre @ post
                      | None \<Rightarrow> aiResponse)
          in (confidence, reason))"

text \<open>
  The claim's words "the text contains a number between the delimiters": somewhere in
  the text stands \<open>open\<close>, a non-empty run of digits and dots, and \<open>close\<close>.
\<close>

definition containsDelimited :: "string \<Rightarrow> string \<Rightarrow> string \<Rightarrow> bool" where
  "containsDelimited opn cls r =
     (\<exists>pre grp post. r = pre @ opn @ grp @ cls @ post \<and> grp \<noteq> [] \<and> list_all isScoreChar grp)"

section \<open>The momentum bot (the bot that imports \<open>./trade_manager\<close>)\<close>

record StrategyParameters =
  maxPositionSize :: real
  stopLoss :: real
  takeProfit :: real
  maxConcurrentPositions :: nat
  dailyLossLimit :: real

definition strategyParameters :: StrategyParameters where
  "strategyParameters = \<lparr> maxPositionSize = 3 / 100, stopLoss = 5 / 1000, takeProfit = 1 / 100,
      maxConcurrentPositions = 10, dailyLossLimit = - (5 / 100) \<rparr>"

definition adaptStrategy :: "real \<Rightarrow> real \<Rightarrow> StrategyParameters \<Rightarrow> StrategyParameters" where
  "adaptStrategy pnl winRate sp =
     (if pnl < - (1 / 10) \<and> winRate < 1 / 2 then
        sp\<lparr>maxPositionSize := 5 / 100, stopLoss := 3 / 100\<rparr>
      else if pnl > 1 / 10 \<and> winRate > 6 / 10 then
        sp\<lparr>maxPositionSize := 12 / 100, takeProfit := 20 / 100\<rparr>
      else sp)"


definition USDC_ADDRESS :: string where
  "USDC_ADDRESS = ''0xA0b86991c6218b36c1d19D4a2e9Eb0cE3606eB48''"


text \<open>The set \<open>TRADABLE_TOKEN_ADDRESSES\<close> after \<open>initializeTradableTokens\<close>.\<close>

definition TRADABLE_TOKEN_ADDRESSES :: "string list" where
  "TRADABLE_TOKEN_ADDRESSES =
     [''0x7Fc66500c84A76Ad7e9c93437bFc5Ac33E2DDaE9'',
      ''0x1121AcC14c63f3C872BFcA497d10926A6098AAc5'',
      ''0x2260fac5e5542a773aa44fbcfedf7c193bc2c599'',
      ''0xC02aaA39b223FE8D0A0e5C4F27eAD9083C756Cc2'',
      ''0x514910771af9ca656af840dff83e8264ecf986ca'',
      ''0x07E0EDf8ce600FB51d44F51E3348D77D67F298ae'',
      ''0x1151CB3d861920e07a38e03eEAd12C32178567F6'',
      ''0x6982508145454ce325ddbe47a25d4ec3d2311933'',
      ''So11111111111111111111111111111111111111112'']"

text \<open>
  A call of \<open>recall.executeTrade\<close>, as the bot issues it. The amount is the number
  before \<open>toString()\<close>. The properties are optional because \<open>monitorOpenPositions\<close> fills
  some of them from reads that may be \<open>undefined\<close>.
\<close>

record order =
  order_fromToken :: "string option"
  order_toToken :: string
  order_amount :: real
  order_reason :: string
  order_chain :: "string option"
  order_specificChain :: "string option"

text \<open>The bot's state: the trade manager module and the trades sent to the API so far.\<close>

record bot =
  tradeManager :: store
  orders :: "order list"

text \<open>
  The environment of one loop, asked by the index of the iteration: what \<open>getPrice\<close>
  answers (it rejects, it answers \<open>null\<close>, or it answers an object with a \<open>price\<close>),
  whether \<open>executeTrade\<close> resolves, what the file write of the store does, and the id and
  the time stamp a new record gets from \<open>Date.now()\<close>, \<open>Math.random()\<close> and
  \<open>new Date()\<close>. The two number formats are parameters too.
\<close>

datatype price_outcome = PriceRejects | PriceNull | Price real

record env =
  priceAt :: "nat \<Rightarrow> price_outcome"
  tradeAt :: "nat \<Rightarrow> bool"
  writeAt :: "nat \<Rightarrow> OpenTrade write_outcome"
  idAt :: "nat \<Rightarrow> string"
  nowAt :: "nat \<Rightarrow> string"
  toString :: "real \<Rightarrow> string"
  toFixed0 :: "real \<Rightarrow> string"

text \<open>
  \<open>monitorOpenPositions\<close> iterates over the records of \<open>getOpenTrades()\<close> and reads their
  properties \<open>token\<close>, \<open>chain\<close>, \<open>specificChain\<close>, \<open>symbol\<close> and \<open>amount\<close>.
  \<open>interface OpenTrade\<close> declares none of these, and the records that \<open>executeTrades\<close>
  hands to \<open>addOpenTrade\<close> do not carry them (they carry \<open>toToken\<close>, \<open>toChain\<close>,
  \<open>toSpecificChain\<close>, \<open>toTokenSymbol\<close> and \<open>toAmount\<close>). Reading a property an object does
  not have yields \<open>undefined\<close>.
\<close>

definition prop_token :: "OpenTrade \<Rightarrow> string option" where
  "prop_token t = None"

definition prop_chain :: "OpenTrade \<Rightarrow> string option" where
  "prop_chain t = None"

definition prop_specificChain :: "OpenTrade \<Rightarrow> string option" where
  "prop_specificChain t = None"

definition prop_amount :: "OpenTrade \<Rightarrow> real option" where
  "prop_amount t = None"

text \<open>
  The exit test of \<open>monitorOpenPositions\<close>: \<open>pnl\<close>, \<open>stopLossHit\<close> and \<open>takeProfitHit\<close>.
  With an entry price of 0 the quotient is \<open>+Infinity\<close>, \<open>-Infinity\<close> or \<open>NaN\<close> in
  JavaScript, and the two comparisons come out as written in the first branch.
\<close>

definition exitCheck :: "StrategyParameters \<Rightarrow> real \<Rightarrow> real \<Rightarrow> bool \<times> bool" where
  "exitCheck sp entryPrice currentPriceValue =
     (if entryPrice = 0 then (currentPriceValue < 0, currentPriceValue > 0)
      else
        let pnl = (currentPriceValue - entryPrice) / entryPrice;
            stopLossHit = (pnl \<le> - stopLoss sp);
            takeProfitHit = (pnl \<ge> takeProfit sp)
        in (stopLossHit, takeProfitHit))"

text \<open>
  The loop of \<open>monitorOpenPositions\<close> over the array \<open>getOpenTrades()\<close> returned when the
  loop started (\<open>removeOpenTrade\<close> assigns a new array to the module variable and leaves
  that one alone). \<open>Set.has(undefined)\<close> is false. Nothing in the loop catches an error.
\<close>

fun monitorLoop :: "env \<Rightarrow> StrategyParameters \<Rightarrow> nat \<Rightarrow> OpenTrade list \<Rightarrow> bot \<Rightarrow> (error + unit) \<times> bot" where
  "monitorLoop e sp i [] s = (Inr (), s)"
| "monitorLoop e sp i (token # rest) s =
     (if \<not> (case prop_token token of
                None \<Rightarrow> False
              | Some a \<Rightarrow> a \<in> set TRADABLE_TOKEN_ADDRESSES)
      then monitorLoop e sp (Suc i) rest s
      else
        let entryPrice = price token in
        case priceAt e i of
          PriceRejects \<Rightarrow> (Inl RequestError, s)
        | PriceNull \<Rightarrow> monitorLoop e sp (Suc i) rest s
        | Price currentPriceValue \<Rightarrow>
            let (stopLossHit, takeProfitHit) = exitCheck sp entryPrice currentPriceValue in
            if stopLossHit \<or> takeProfitHit then
              let reason' = (if stopLossHit then ''Stop-loss triggered''
                             else ''Take-profit triggered'')
              in case prop_amount token of
                   None \<Rightarrow> (Inl TypeError, s)
                 | Some amount \<Rightarrow>
                     let s1 = s\<lparr>orders := orders s @
                                [\<lparr> order_fromToken = prop_token token,
                                   order_toToken = USDC_ADDRESS,
                                   order_amount = amount,
                                   order_reason = reason',
                                   order_chain = None,
                                   order_specificChain = None \<rparr>]\<rparr>
                     in if tradeAt e i then
                          (case removeOpenTrade (writeAt e i) (id' token) (tradeManager s1) of
                             (Inl err, tm) \<Rightarrow> (Inl err, s1\<lparr>tradeManager := tm\<rparr>)
                           | (Inr u, tm) \<Rightarrow>
                               monitorLoop e sp (Suc i) rest (s1\<lparr>tradeManager := tm\<rparr>))
                        else (Inl RequestError, s1)
            else monitorLoop e sp (Suc i) rest s)"

definition monitorOpenPositions :: "env \<Rightarrow> StrategyParameters \<Rightarrow> bot \<Rightarrow> (error + unit) \<times> bot" where
  "monitorOpenPositions e sp s = monitorLoop e sp 0 (getOpenTrades (tradeManager s)) s"

















text \<open>Concrete data used to run the bot.\<close>

definition env0 :: "real \<Rightarrow> env" where
  "env0 p = \<lparr> priceAt = (\<lambda>i. Price p), tradeAt = (\<lambda>i. True), writeAt = (\<lambda>i. WriteOk),
      idAt = (\<lambda>i. ''t-9''), nowAt = (\<lambda>i. ''2025-01-02T00:00:00.000Z''),
      toString = (\<lambda>x. ''num''), toFixed0 = (\<lambda>x. ''80'') \<rparr>"

definition exitParameters :: StrategyParameters where
  "exitParameters = strategyParameters\<lparr> stopLoss := 5 / 100, takeProfit := 15 / 100 \<rparr>"


definition bot1 :: bot where
  "bot1 = \<lparr> tradeManager = store0\<lparr>openTrades := [trade0], disk := Holds [trade0]\<rparr>,
             orders = [] \<rparr>"





section \<open>The intraday store and its trailing stop (\<open>intraday_trade_manager.ts\<close>)\<close>

text \<open>The \<open>OpenTrade\<close> of the intraday manager has one more, optional property.\<close>

record IntradayTrade = OpenTrade +
  highWaterMark :: "real option"

text \<open>
  The intraday bot changes trade objects in place (\<open>trade.highWaterMark = ...\<close>) while
  the manager replaces array slots by fresh objects (\<open>{ ...old, ...updates }\<close>), so here
  objects have an identity: a reference is a natural number, \<open>objects\<close> is the heap,
  \<open>nextRef\<close> the next free reference and the module variable \<open>openTrades\<close> an array of
  references. \<open>closing\<close> lists the positions for which a closing trade was sent.

  \<open>seen\<close> is not part of the program. It is a history kept for stating the claim: the
  pairs of position id and price, for every price the monitoring loop obtained.
\<close>

record intraday =
  objects :: "nat \<Rightarrow> IntradayTrade"
  nextRef :: nat
  openTradeRefs :: "nat list"
  intradayDisk :: "IntradayTrade json_file"
  intradayWrites :: nat
  closing :: "IntradayTrade list"
  seen :: "(string \<times> real) list"

text \<open>What \<open>getOpenTrades()\<close> shows: the objects of the array, in order.\<close>

definition openValues :: "intraday \<Rightarrow> IntradayTrade list" where
  "openValues s = map (objects s) (openTradeRefs s)"

definition intradaySave :: "IntradayTrade write_outcome \<Rightarrow> intraday \<Rightarrow> (error + unit) \<times> intraday" where
  "intradaySave w s =
     (case w of
        WriteOk \<Rightarrow>
          (Inr (), s\<lparr>intradayDisk := Holds (openValues s), intradayWrites := Suc (intradayWrites s)\<rparr>)
      | WriteFails f \<Rightarrow>
          (Inr (), s\<lparr>intradayDisk := f, intradayWrites := Suc (intradayWrites s)\<rparr>))"

text \<open>\<open>Array.prototype.findIndex\<close>; \<open>None\<close> stands for \<open>-1\<close>.\<close>

fun findIndex :: "('a \<Rightarrow> bool) \<Rightarrow> 'a list \<Rightarrow> nat option" where
  "findIndex P [] = None"
| "findIndex P (x # xs) = (if P x then Some 0 else map_option Suc (findIndex P xs))"

text \<open>
  \<open>updateOpenTrade\<close>. The partial record \<open>updates\<close> is given by what spreading it over
  an object does to that object; the one caller passes \<open>{ highWaterMark: currentPrice }\<close>.
  The merged object is a new one and takes the slot of the old one.
\<close>

definition updateOpenTrade ::
    "IntradayTrade write_outcome \<Rightarrow> string \<Rightarrow> (IntradayTrade \<Rightarrow> IntradayTrade) \<Rightarrow> intraday
      \<Rightarrow> (error + unit) \<times> intraday" where
  "updateOpenTrade w tradeId updates s =
     (case findIndex (\<lambda>r. id' (objects s r) = tradeId) (openTradeRefs s) of
        Some tradeIndex \<Rightarrow>
          let merged = updates (objects s (openTradeRefs s ! tradeIndex));
              r = nextRef s
          in intradaySave w
               (s\<lparr>objects := (objects s)(r := merged), nextRef := Suc r,
                  openTradeRefs := (openTradeRefs s)[tradeIndex := r]\<rparr>)
      | None \<Rightarrow> (Inr (), s))"

definition intradayRemove :: "IntradayTrade write_outcome \<Rightarrow> string \<Rightarrow> intraday \<Rightarrow> (error + unit) \<times> intraday" where
  "intradayRemove w tradeId s =
     (let initialLength = length (openTradeRefs s);
          s1 = s\<lparr>openTradeRefs := filter (\<lambda>r. id' (objects s r) \<noteq> tradeId) (openTradeRefs s)\<rparr>
      in if length (openTradeRefs s1) < initialLength then intradaySave w s1
         else (Inr (), s1))"

text \<open>
  The environment of the intraday loop, by iteration: the price answer, whether the
  closing trade is accepted, and what the file writes of \<open>updateOpenTrade\<close> and of
  \<open>removeOpenTrade\<close> do.
\<close>

record intraday_env =
  priceNow :: "nat \<Rightarrow> price_outcome"
  closeAccepted :: "nat \<Rightarrow> bool"
  updateWrite :: "nat \<Rightarrow> IntradayTrade write_outcome"
  removeWrite :: "nat \<Rightarrow> IntradayTrade write_outcome"

text \<open>
  \<open>!trade.highWaterMark\<close> holds for a missing mark and for the mark 0. \<open>markOf\<close> is what
  \<open>trade.highWaterMark\<close> reads after the first line of the loop body.
\<close>

definition falsy :: "real option \<Rightarrow> bool" where
  "falsy h = (h = None \<or> h = Some 0)"

definition markOf :: "IntradayTrade \<Rightarrow> real" where
  "markOf t = (case highWaterMark t of
                 None \<Rightarrow> price t
               | Some h \<Rightarrow> if h = 0 then price t else h)"

text \<open>
  The loop of the intraday \<open>monitorOpenPositions\<close>, over the references in the array that
  \<open>getOpenTrades()\<close> returned when the loop started. \<open>updateOpenTrade\<close> writes only to a
  slot at or before the one the loop is at, and \<open>removeOpenTrade\<close> assigns a new array, so
  the loop sees the references the array had at the start. The parameter \<open>tsl\<close> is
  \<open>strategyParameters.trailingStopLoss\<close>.
\<close>

fun trailingLoop :: "intraday_env \<Rightarrow> real \<Rightarrow> nat \<Rightarrow> nat list \<Rightarrow> intraday \<Rightarrow> (error + unit) \<times> intraday" where
  "trailingLoop e tsl i [] s = (Inr (), s)"
| "trailingLoop e tsl i (trade # rest) s =
     (let mark0 = markOf (objects s trade);
          s1 = (if falsy (highWaterMark (objects s trade))
                then s\<lparr>objects := (objects s)
                        (trade := (objects s trade)\<lparr>highWaterMark := Some (price (objects s trade))\<rparr>)\<rparr>
                else s)
      in case priceNow e i of
           PriceRejects \<Rightarrow> (Inl RequestError, s1)
         | PriceNull \<Rightarrow> trailingLoop e tsl (Suc i) rest s1
         | Price currentPrice \<Rightarrow>
             let s2 = s1\<lparr>seen := seen s1 @ [(id' (objects s1 trade), currentPrice)]\<rparr>;
                 (mark1, s3) =
                   (if currentPrice > mark0 then
                      (currentPrice,
                       snd (updateOpenTrade (updateWrite e i) (id' (objects s2 trade))
                              (\<lambda>t. t\<lparr>highWaterMark := Some currentPrice\<rparr>)
                              (s2\<lparr>objects := (objects s2)
                                  (trade := (objects s2 trade)\<lparr>highWaterMark := Some currentPrice\<rparr>)\<rparr>)))
                    else (mark0, s2));
                 stopPrice = mark1 * (1 - tsl)
             in if currentPrice \<le> stopPrice then
                  let s4 = s3\<lparr>closing := closing s3 @ [objects s3 trade]\<rparr>
                  in if closeAccepted e i then
                       trailingLoop e tsl (Suc i) rest
                         (snd (intradayRemove (removeWrite e i) (id' (objects s4 trade)) s4))
                     else (Inl RequestError, s4)
                else trailingLoop e tsl (Suc i) rest s3)"

definition monitorTrailingStops :: "intraday_env \<Rightarrow> real \<Rightarrow> intraday \<Rightarrow> (error + unit) \<times> intraday" where
  "monitorTrailingStops e tsl s = trailingLoop e tsl 0 (openTradeRefs s) s"

text \<open>A run of monitoring passes, one environment each; a pass that fails ends there.\<close>

definition monitoringPasses :: "intraday_env list \<Rightarrow> real \<Rightarrow> intraday \<Rightarrow> intraday" where
  "monitoringPasses es tsl s = fold (\<lambda>e s. snd (monitorTrailingStops e tsl s)) es s"

text \<open>The prices the history holds for a position id.\<close>

definition observed :: "string \<Rightarrow> (string \<times> real) list \<Rightarrow> real list" where
  "observed k history = map snd (filter (\<lambda>(j, p). j = k) history)"

text \<open>
  A well-formed store: the positions have pairwise different ids (which the spec states
  as the store's uniqueness invariant) and every reference is allocated.
\<close>

definition wellFormed :: "intraday \<Rightarrow> bool" where
  "wellFormed s =
     (distinct (map (\<lambda>r. id' (objects s r)) (openTradeRefs s))
      \<and> list_all (\<lambda>r. r < nextRef s) (openTradeRefs s))"

text \<open>
  The claim about one position, given the history: its entry price is not negative, the
  mark that monitoring reads is the maximum of the entry price and the prices observed
  for the position, and once a price was observed the property \<open>highWaterMark\<close> holds
  that mark. \<open>tracking\<close> says so for every open position of a well-formed store.
\<close>

definition follows :: "(string \<times> real) list \<Rightarrow> IntradayTrade \<Rightarrow> bool" where
  "follows history x =
     (0 \<le> price x
      \<and> markOf x = Max (set (price x # observed (id' x) history))
      \<and> (observed (id' x) history = [] \<or> highWaterMark x = Some (markOf x)))"

definition tracking :: "intraday \<Rightarrow> bool" where
  "tracking s =
     (wellFormed s \<and> list_all (\<lambda>r. follows (seen s) (objects s r)) (openTradeRefs s))"

text \<open>
  How a later store relates to an earlier one during monitoring: the history has only
  grown, by prices that \<open>getPrice\<close> answered, and every open position is an earlier open
  position in which at most \<open>highWaterMark\<close> differs.
\<close>

definition descends :: "intraday_env \<Rightarrow> intraday \<Rightarrow> intraday \<Rightarrow> bool" where
  "descends e s s' =
     ((\<exists>extra. seen s' = seen s @ extra \<and> (\<forall>kp \<in> set extra. \<exists>j. priceNow e j = Price (snd kp)))
      \<and> (\<forall>r' \<in> set (openTradeRefs s'). \<exists>r \<in> set (openTradeRefs s).
            objects s' r' = (objects s r)\<lparr>highWaterMark := highWaterMark (objects s' r')\<rparr>))"

text \<open>Concrete data used to run the intraday loop.\<close>

definition position0 :: IntradayTrade where
  "position0 = \<lparr> id' = ''t-1'', fromToken = ''0xA0b86991c6218b36c1d19D4a2e9Eb0cE3606eB48'',
      fromTokenSymbol = ''USDC'', fromChain = ''evm'', fromSpecificChain = ''base'',
      fromAmount = 1000, toToken = ''0x7Fc66500c84A76Ad7e9c93437bFc5Ac33E2DDaE9'',
      toTokenSymbol = ''AAVE'', toChain = ''evm'', toSpecificChain = ''eth'',
      toAmount = ''10'', price = 100, tradeAmountUsd = 1000,
      timestamp = ''2025-01-01T00:00:00.000Z'', competitionId = ''N/A'', agentId = ''N/A'',
      reason = ''Intraday Trend/Volatility. AI Confidence: 80%'', error = None,
      highWaterMark = None \<rparr>"

definition intraday0 :: intraday where
  "intraday0 = \<lparr> objects = (\<lambda>r. position0), nextRef = 1, openTradeRefs = [0],
      intradayDisk = Holds [position0], intradayWrites = 0, closing = [], seen = [] \<rparr>"

definition priceEnv :: "real \<Rightarrow> intraday_env" where
  "priceEnv p = \<lparr> priceNow = (\<lambda>i. Price p), closeAccepted = (\<lambda>i. True),
      updateWrite = (\<lambda>i. WriteOk), removeWrite = (\<lambda>i. WriteOk) \<rparr>"

section \<open>Properties of the position store\<close>

lemma saveOpenTrades_result: "fst (saveOpenTrades w s) = Inr ()"
  by (cases w) (simp_all add: saveOpenTrades_def writeFile_def)

lemma saveOpenTrades_openTrades: "openTrades (snd (saveOpenTrades w s)) = openTrades s"
  by (cases w) (simp_all add: saveOpenTrades_def writeFile_def)

lemma saveOpenTrades_disk:
  "disk (snd (saveOpenTrades w s)) = (case w of WriteOk \<Rightarrow> Holds (openTrades s) | WriteFails f \<Rightarrow> f)"
  by (cases w) (simp_all add: saveOpenTrades_def writeFile_def)

lemma saveOpenTrades_writes: "writes (snd (saveOpenTrades w s)) = Suc (writes s)"
  by (cases w) (simp_all add: saveOpenTrades_def writeFile_def)

lemma addOpenTrade_openTrades:
  "openTrades (snd (addOpenTrade w trade s)) = openTrades s @ [trade]"
  by (cases w) (simp_all add: addOpenTrade_def saveOpenTrades_def writeFile_def)

lemma addOpenTrade_result: "fst (addOpenTrade w trade s) = Inr ()"
  by (cases w) (simp_all add: addOpenTrade_def saveOpenTrades_def writeFile_def)

lemma addOpenTrade_disk:
  "disk (snd (addOpenTrade w trade s)) =
     (case w of WriteOk \<Rightarrow> Holds (openTrades s @ [trade]) | WriteFails f \<Rightarrow> f)"
  by (cases w) (simp_all add: addOpenTrade_def saveOpenTrades_def writeFile_def)

lemma removeOpenTrade_openTrades:
  "openTrades (snd (removeOpenTrade w tradeId s)) =
     filter (\<lambda>trade. id' trade \<noteq> tradeId) (openTrades s)"
  by (cases w) (simp_all add: removeOpenTrade_def saveOpenTrades_def writeFile_def Let_def)

lemma removeOpenTrade_result: "fst (removeOpenTrade w tradeId s) = Inr ()"
  by (cases w) (simp_all add: removeOpenTrade_def saveOpenTrades_def writeFile_def Let_def)

lemma filter_length_same:
  "length (filter P xs) < length xs \<longleftrightarrow> (\<exists>x \<in> set xs. \<not> P x)"
  by (induction xs) (auto simp: less_Suc_eq_le)

lemma removeOpenTrade_absent:
  assumes "tradeId \<notin> id' ` set (openTrades s)"
  shows "snd (removeOpenTrade w tradeId s) = s\<lparr>console := console s @ [WarnNotFound tradeId]\<rparr>"
proof -
  have keep: "filter (\<lambda>trade. id' trade \<noteq> tradeId) (openTrades s) = openTrades s"
    using assms by (auto simp: filter_id_conv)
  show ?thesis
    by (simp add: removeOpenTrade_def Let_def keep)
qed

lemma removeOpenTrade_present_writes:
  assumes "tradeId \<in> id' ` set (openTrades s)"
  shows "writes (snd (removeOpenTrade w tradeId s)) = Suc (writes s)"
proof -
  have "length (filter (\<lambda>trade. id' trade \<noteq> tradeId) (openTrades s)) < length (openTrades s)"
    using assms by (auto simp: filter_length_same)
  then show ?thesis
    by (cases w) (simp_all add: removeOpenTrade_def saveOpenTrades_def writeFile_def Let_def)
qed

lemma count_list_filter_keep:
  "P t \<Longrightarrow> count_list (filter P xs) t = count_list xs t"
  by (induction xs) auto

lemma count_list_absent: "t \<notin> set xs \<Longrightarrow> count_list xs t = 0"
  by (induction xs) auto

text \<open>
  Claim C10. For every store state and every id, \<open>removeOpenTrade(id)\<close> leaves exactly
  the trades whose id differs, in their old order and unchanged: the new collection is
  the old one filtered, it is a subsequence of the old one, no trade in it has the id,
  and every trade with another id occurs as often as before. When no trade has the id,
  the collection is the same as before, no \<open>fs.writeFile\<close> is issued and the file is
  what it was, whatever a write would have done.
\<close>

theorem removeOpenTrade_removes_every_match:
  "getOpenTrades (snd (removeOpenTrade w tradeId s)) =
       filter (\<lambda>trade. id' trade \<noteq> tradeId) (getOpenTrades s)
   \<and> (\<forall>t \<in> set (getOpenTrades (snd (removeOpenTrade w tradeId s))). id' t \<noteq> tradeId)
   \<and> subseq (getOpenTrades (snd (removeOpenTrade w tradeId s))) (getOpenTrades s)
   \<and> (\<forall>t. id' t \<noteq> tradeId \<longrightarrow>
         count_list (getOpenTrades (snd (removeOpenTrade w tradeId s))) t =
         count_list (getOpenTrades s) t)
   \<and> (tradeId \<notin> id' ` set (getOpenTrades s) \<longrightarrow>
         getOpenTrades (snd (removeOpenTrade w tradeId s)) = getOpenTrades s
       \<and> disk (snd (removeOpenTrade w tradeId s)) = disk s
       \<and> writes (snd (removeOpenTrade w tradeId s)) = writes s)"
proof -
  let ?s' = "snd (removeOpenTrade w tradeId s)"
  have eq: "getOpenTrades ?s' = filter (\<lambda>trade. id' trade \<noteq> tradeId) (getOpenTrades s)"
    by (simp add: getOpenTrades_def removeOpenTrade_openTrades)
  have none: "\<forall>t \<in> set (getOpenTrades ?s'). id' t \<noteq> tradeId"
    by (simp add: eq)
  have sub: "subseq (getOpenTrades ?s') (getOpenTrades s)"
    by (simp add: eq)
  have cnt: "\<forall>t. id' t \<noteq> tradeId \<longrightarrow>
      count_list (getOpenTrades ?s') t = count_list (getOpenTrades s) t"
    by (simp add: eq count_list_filter_keep)
  have absent: "tradeId \<notin> id' ` set (getOpenTrades s) \<longrightarrow>
      getOpenTrades ?s' = getOpenTrades s \<and> disk ?s' = disk s \<and> writes ?s' = writes s"
    by (simp add: getOpenTrades_def removeOpenTrade_absent)
  from eq none sub cnt absent show ?thesis by blast
qed

theorem removeOpenTrade_removes_every_match_witness:
  "getOpenTrades (snd (removeOpenTrade WriteOk ''t-1'' store2)) = [trade1]
   \<and> id' trade1 \<noteq> ''t-1''
   \<and> count_list (getOpenTrades (snd (removeOpenTrade WriteOk ''t-1'' store2))) trade1 = 1
   \<and> ''t-9'' \<notin> id' ` set (getOpenTrades store2)
   \<and> getOpenTrades (snd (removeOpenTrade WriteOk ''t-9'' store2)) = getOpenTrades store2
   \<and> disk (snd (removeOpenTrade WriteOk ''t-9'' store2)) = Absent
   \<and> writes (snd (removeOpenTrade WriteOk ''t-9'' store2)) = 3"
  using removeOpenTrade_removes_every_match [of WriteOk "''t-1''" store2]
        removeOpenTrade_removes_every_match [of WriteOk "''t-9''" store2]
  by (simp add: getOpenTrades_def store2_def trade0_def trade1_def)

text \<open>
  Claim C6. From any store state that holds no trade with \<open>p\<close>'s id, after
  \<open>addOpenTrade(p)\<close> the collection returned by \<open>getOpenTrades()\<close> contains \<open>p\<close> exactly
  once, and after \<open>removeOpenTrade(p.id)\<close> it contains no trade with \<open>p\<close>'s id. Both calls
  return normally, whatever the two file writes do.
\<close>

theorem add_then_remove_roundtrip:
  assumes "id' p \<notin> id' ` set (getOpenTrades s)"
  shows "fst (addOpenTrade w1 p s) = Inr ()
       \<and> count_list (getOpenTrades (snd (addOpenTrade w1 p s))) p = 1
       \<and> fst (removeOpenTrade w2 (id' p) (snd (addOpenTrade w1 p s))) = Inr ()
       \<and> id' p \<notin> id' ` set (getOpenTrades
             (snd (removeOpenTrade w2 (id' p) (snd (addOpenTrade w1 p s)))))"
proof -
  have "p \<notin> set (getOpenTrades s)"
    using assms by auto
  then have "count_list (getOpenTrades s) p = 0"
    by (rule count_list_absent)
  then have one: "count_list (getOpenTrades (snd (addOpenTrade w1 p s))) p = 1"
    by (simp add: getOpenTrades_def addOpenTrade_openTrades)
  have gone: "id' p \<notin> id' ` set (getOpenTrades
      (snd (removeOpenTrade w2 (id' p) (snd (addOpenTrade w1 p s)))))"
    by (auto simp: getOpenTrades_def removeOpenTrade_openTrades)
  from one gone show ?thesis
    by (simp add: addOpenTrade_result removeOpenTrade_result)
qed

theorem add_then_remove_roundtrip_witness:
  "id' trade1 \<notin> id' ` set (getOpenTrades store0)
   \<and> count_list (getOpenTrades (snd (addOpenTrade WriteOk trade1 store0))) trade1 = 1
   \<and> getOpenTrades (snd (addOpenTrade WriteOk trade1 store0)) = [trade1]
   \<and> getOpenTrades (snd (removeOpenTrade (WriteFails Corrupt) (id' trade1)
        (snd (addOpenTrade WriteOk trade1 store0)))) = []"
  using add_then_remove_roundtrip [of trade1 store0 WriteOk "WriteFails Corrupt"]
  by (simp add: getOpenTrades_def store0_def addOpenTrade_openTrades
      removeOpenTrade_openTrades)

text \<open>
  Claim C2, as amended. \<open>addOpenTrade\<close> appends the position to the in-memory list and
  issues one file write. The call returns normally in every case: a rejected write is
  caught and logged inside \<open>saveOpenTrades\<close> and no error reaches the caller. After a
  rejected write the in-memory list holds the new position while the file holds whatever
  the failed write left; after a successful one the file holds the new list.
\<close>

theorem addOpenTrade_never_fails:
  "fst (addOpenTrade w trade s) = Inr ()
   \<and> getOpenTrades (snd (addOpenTrade w trade s)) = getOpenTrades s @ [trade]
   \<and> writes (snd (addOpenTrade w trade s)) = Suc (writes s)
   \<and> disk (snd (addOpenTrade w trade s)) =
       (case w of WriteOk \<Rightarrow> Holds (getOpenTrades s @ [trade]) | WriteFails f \<Rightarrow> f)
   \<and> console (snd (addOpenTrade w trade s)) =
       console s @ (case w of WriteOk \<Rightarrow> [] | WriteFails f \<Rightarrow> [ErrorSaving])
         @ [LogAdded (toTokenSymbol trade) (Suc (length (getOpenTrades s)))]"
  by (cases w)
     (simp_all add: addOpenTrade_def saveOpenTrades_def writeFile_def getOpenTrades_def)

text \<open>
  The claim as stated fails: with a write that is rejected, the call still returns
  normally (and the list already holds the trade).
\<close>

theorem addOpenTrade_write_failure_counterexample:
  "fst (addOpenTrade (WriteFails Corrupt) trade0 store0) = Inr ()
   \<and> getOpenTrades (snd (addOpenTrade (WriteFails Corrupt) trade0 store0)) = [trade0]
   \<and> disk (snd (addOpenTrade (WriteFails Corrupt) trade0 store0)) = Corrupt"
  by (simp add: addOpenTrade_def saveOpenTrades_def writeFile_def getOpenTrades_def store0_def)

section \<open>Properties of the indicator library\<close>

lemma ema_fold_invariant:
  fixes prices :: "real list" and k p0 :: real
  defines "step \<equiv> \<lambda>i emaArray. emaArray @ [prices ! i * k + emaArray ! (i - 1) * (1 - k)]"
  shows "length (fold step [1..<Suc n] [p0]) = Suc n
       \<and> fold step [1..<Suc n] [p0] ! 0 = p0
       \<and> (\<forall>i. 0 < i \<and> i \<le> n \<longrightarrow>
             fold step [1..<Suc n] [p0] ! i =
               prices ! i * k + fold step [1..<Suc n] [p0] ! (i - 1) * (1 - k))"
proof (induction n)
  case 0
  show ?case by simp
next
  case (Suc n)
  define E where "E = fold step [1..<Suc n] [p0]"
  define x where "x = prices ! Suc n * k + E ! n * (1 - k)"
  have len: "length E = Suc n" and hd0: "E ! 0 = p0"
    and rec: "\<And>i. 0 < i \<Longrightarrow> i \<le> n \<Longrightarrow> E ! i = prices ! i * k + E ! (i - 1) * (1 - k)"
    using Suc.IH unfolding E_def by auto
  have unfold: "fold step [1..<Suc (Suc n)] [p0] = E @ [x]"
    by (simp add: step_def E_def x_def)
  have step_i: "(E @ [x]) ! i = prices ! i * k + (E @ [x]) ! (i - 1) * (1 - k)"
    if i: "0 < i" "i \<le> Suc n" for i
  proof (cases "i = Suc n")
    case True
    then show ?thesis by (simp add: nth_append len x_def)
  next
    case False
    with i have le: "i \<le> n" by simp
    then have "i < length E" "i - 1 < length E"
      by (simp_all add: len)
    then have "(E @ [x]) ! i = E ! i" "(E @ [x]) ! (i - 1) = E ! (i - 1)"
      by (simp_all add: nth_append)
    with rec[OF i(1) le] show ?thesis by simp
  qed
  have "length (E @ [x]) = Suc (Suc n)" "(E @ [x]) ! 0 = p0"
    using len hd0 by (simp_all add: nth_append)
  with step_i show ?case
    unfolding unfold by blast
qed

text \<open>
  Claim C5. For a non-empty price series of length at least \<open>period\<close>, \<open>calculateEMA\<close>
  returns a sequence as long as the input, whose first element is the first input price
  and whose element \<open>i > 0\<close> is \<open>price[i]*k + ema[i-1]*(1-k)\<close> with \<open>k = 2/(period+1)\<close>; for
  a series shorter than \<open>period\<close> it returns the empty sequence; and
  \<open>EMA([10,20,30], 2) = [10, 50/3, 230/9]\<close>, that is \<open>[10, 16.66.., 25.55..]\<close>.
\<close>

theorem calculateEMA_recurrence:
  "(prices \<noteq> [] \<and> period \<le> length prices \<longrightarrow>
      (\<exists>ema. calculateEMA prices period = Inr ema
         \<and> length ema = length prices
         \<and> ema ! 0 = prices ! 0
         \<and> (\<forall>i. 0 < i \<and> i < length prices \<longrightarrow>
               ema ! i = prices ! i * (2 / (real period + 1))
                       + ema ! (i - 1) * (1 - 2 / (real period + 1)))))
   \<and> (length prices < period \<longrightarrow> calculateEMA prices period = Inr [])
   \<and> calculateEMA [10, 20, 30] 2 = Inr [10, 50 / 3, 230 / 9]"
proof (intro conjI impI)
  assume a: "prices \<noteq> [] \<and> period \<le> length prices"
  then obtain p0 rest where pr: "prices = p0 # rest"
    by (cases prices) auto
  let ?k = "2 / (real period + 1)"
  let ?ema = "fold (\<lambda>i emaArray. emaArray @ [prices ! i * ?k + emaArray ! (i - 1) * (1 - ?k)])
                 [1..<Suc (length rest)] [p0]"
  have val: "calculateEMA prices period = Inr ?ema"
    using a by (simp add: calculateEMA_def pr)
  have inv: "length ?ema = Suc (length rest) \<and> ?ema ! 0 = p0
       \<and> (\<forall>i. 0 < i \<and> i \<le> length rest \<longrightarrow>
             ?ema ! i = prices ! i * ?k + ?ema ! (i - 1) * (1 - ?k))"
    by (rule ema_fold_invariant)
  show "\<exists>ema. calculateEMA prices period = Inr ema
         \<and> length ema = length prices
         \<and> ema ! 0 = prices ! 0
         \<and> (\<forall>i. 0 < i \<and> i < length prices \<longrightarrow>
               ema ! i = prices ! i * ?k + ema ! (i - 1) * (1 - ?k))"
  proof (intro exI conjI)
    show "calculateEMA prices period = Inr ?ema" by (rule val)
    show "length ?ema = length prices" using inv by (simp add: pr)
    show "?ema ! 0 = prices ! 0" using inv by (simp add: pr)
    show "\<forall>i. 0 < i \<and> i < length prices \<longrightarrow>
               ?ema ! i = prices ! i * ?k + ?ema ! (i - 1) * (1 - ?k)"
      using inv by (simp add: pr less_Suc_eq_le)
  qed
next
  assume "length prices < period"
  then show "calculateEMA prices period = Inr []"
    by (simp add: calculateEMA_def)
next
  show "calculateEMA [10, 20, 30] 2 = Inr [10, 50 / 3, 230 / 9]"
    by (simp add: calculateEMA_def upt_rec)
qed

theorem calculateEMA_recurrence_witness:
  "[10, 20, 30] \<noteq> ([] :: real list) \<and> (2::nat) \<le> length [10, 20, 30 :: real]
   \<and> calculateEMA [10, 20, 30] 2 = Inr [10, 50 / 3, 230 / 9]
   \<and> length [10 :: real] < (2::nat) \<and> calculateEMA [10] 2 = Inr []"
  using calculateEMA_recurrence [of "[10, 20, 30]" 2] calculateEMA_recurrence [of "[10]" 2]
  by simp

lemma calculateEMA_empty_period_0: "calculateEMA [] 0 = Inl NotANumber"
  by (simp add: calculateEMA_def)

lemma rsi_seed_loop_no_loss:
  fixes prices :: "real list"
  assumes "\<forall>i \<in> set js. prices ! (i - 1) < prices ! i"
  shows "snd (fold (\<lambda>i (avgGain, avgLoss).
                      let change = prices ! i - prices ! (i - 1) in
                      if change > 0 then (avgGain + change, avgLoss)
                      else (avgGain, avgLoss - change)) js (g, 0)) = 0"
  using assms by (induction js arbitrary: g) (simp_all add: Let_def)

text \<open>
  On every strictly increasing series of \<open>period + 1\<close> points the average loss is zero,
  \<open>rs\<close> is set to 100 and the one value returned is \<open>100 - 100/101\<close>.
\<close>

lemma calculateRSI_strictly_increasing:
  assumes "0 < period" and "length prices = Suc period" and "sorted_wrt (<) prices"
  shows "calculateRSI prices period = Inr [10000 / 101]"
proof -
  define body where "body = (\<lambda>i (avgGain :: real, avgLoss :: real).
                      let change = prices ! i - prices ! (i - 1) in
                      if change > 0 then (avgGain + change, avgLoss)
                      else (avgGain, avgLoss - change))"
  have "\<forall>i \<in> set [1..<Suc period]. prices ! (i - 1) < prices ! i"
    using assms(2,3) by (auto simp: sorted_wrt_iff_nth_less)
  then have "snd (fold body [1..<Suc period] (0, 0)) = 0"
    unfolding body_def by (rule rsi_seed_loop_no_loss)
  then have seed: "fold body [1..<Suc period] (0, 0) = (fst (fold body [1..<Suc period] (0, 0)), 0)"
    by (simp add: prod_eq_iff del: upt_Suc)
  have guard: "\<not> length prices \<le> period" "period \<noteq> 0"
    and rest: "[Suc period..<length prices] = []"
    using assms(1,2) by simp_all
  have "calculateRSI prices period =
     (let (sumGain, sumLoss) = fold body [1..<Suc period] (0, 0);
            avgGain = sumGain / real period;
            avgLoss = sumLoss / real period;
            rs = (if avgLoss = 0 then 100 else avgGain / avgLoss)
      in Inr [100 - 100 / (1 + rs)])"
    unfolding calculateRSI_def body_def
    by (simp only: guard if_False rest fold_simps snd_conv Let_def split_def)
  also have "\<dots> = Inr [10000 / 101]"
    by (subst seed) (simp del: upt_Suc)
  finally show ?thesis .
qed

text \<open>
  Claim C1, at the input \<open>prices = [1, 2, .., 15]\<close>, \<open>period = 14\<close>: the series is strictly
  increasing and has 15 points, and \<open>calculateRSI\<close> returns the one-element sequence
  \<open>[10000/101]\<close> (99.0099..), not \<open>[100]\<close>. The simplified \<open>calculateRSI\<close> of
  \<open>combined_strategy_bot.ts\<close> returns 100 on the same input.
\<close>

theorem calculateRSI_rising15:
  "length rising15 = 15 \<and> sorted_wrt (<) rising15
   \<and> calculateRSI rising15 14 = Inr [10000 / 101]
   \<and> calculateRSI rising15 14 \<noteq> Inr [100]
   \<and> calculateRSI_simplified rising15 14 = Inr 100"
  by (simp add: rising15_def calculateRSI_def calculateRSI_simplified_def upt_rec)

lemma calculateATR_array_insufficient:
  "length data < period + 1 \<Longrightarrow> calculateATR_array data period = Inr []"
  by (simp add: calculateATR_array_def)

lemma calculateATR_scalar_insufficient:
  "length ohlcData < period \<Longrightarrow> calculateATR_scalar ohlcData period = Inr 0"
  by (simp add: calculateATR_scalar_def)

text \<open>
  Claim C3, at the input of 14 bars \<open>[t, 10, 12, 8, 10]\<close> with \<open>period = 14\<close>: the series
  has fewer than \<open>period + 1\<close> bars, the array-returning variant returns the empty
  sequence, and the scalar-returning variant returns \<open>26/7\<close>, the sum of the 13 true
  ranges divided by 14, instead of 0.
\<close>

theorem calculateATR_scalar_14_bars:
  "length ohlc14 < 14 + 1
   \<and> calculateATR_scalar ohlc14 14 = Inr (26 / 7)
   \<and> calculateATR_scalar ohlc14 14 \<noteq> Inr 0
   \<and> length points14 < 14 + 1
   \<and> calculateATR_array points14 14 = Inr []"
  by (simp add: ohlc14_def points14_def calculateATR_scalar_def calculateATR_array_def
      trueRange_def rowAt_def upt_rec)

section \<open>Properties of the confidence parsing\<close>

lemma matchHere_sound:
  assumes "matchHere opn cls s = Some (grp, post)"
  shows "s = opn @ grp @ cls @ post \<and> grp \<noteq> [] \<and> list_all isScoreChar grp"
proof -
  define body where "body = drop (length opn) s"
  from assms have p1: "prefix opn s"
    by (auto simp: matchHere_def split: if_splits)
  then have s: "s = opn @ body"
    by (auto simp: prefix_def body_def)
  from assms p1 have g: "grp = takeWhile isScoreChar body" "grp \<noteq> []"
    and p2: "prefix cls (dropWhile isScoreChar body)"
    and po: "post = drop (length cls) (dropWhile isScoreChar body)"
    by (auto simp: matchHere_def Let_def body_def split: if_splits)
  from p2 po have "dropWhile isScoreChar body = cls @ post"
    by (auto simp: prefix_def)
  then have "body = grp @ cls @ post"
    using g(1) takeWhile_dropWhile_id[of isScoreChar body] by simp
  moreover have "list_all isScoreChar grp"
    unfolding g(1) list_all_iff by (auto dest: set_takeWhileD)
  ultimately show ?thesis using s g(2) by simp
qed

lemma regexSearch_sound:
  "regexSearch opn cls skipped s = Some (pre, grp, post) \<Longrightarrow>
     \<exists>mid. pre = skipped @ mid \<and> s = mid @ opn @ grp @ cls @ post
         \<and> grp \<noteq> [] \<and> list_all isScoreChar grp"
proof (induction s arbitrary: skipped)
  case Nil
  then show ?case
    by (auto split: option.splits dest: matchHere_sound)
next
  case (Cons c s)
  show ?case
  proof (cases "matchHere opn cls (c # s)")
    case None
    with Cons.prems have "regexSearch opn cls (skipped @ [c]) s = Some (pre, grp, post)"
      by simp
    from Cons.IH[OF this] obtain mid where
      "pre = (skipped @ [c]) @ mid" "s = mid @ opn @ grp @ cls @ post"
      "grp \<noteq> []" "list_all isScoreChar grp"
      by blast
    then have "pre = skipped @ (c # mid) \<and> c # s = (c # mid) @ opn @ grp @ cls @ post
        \<and> grp \<noteq> [] \<and> list_all isScoreChar grp"
      by simp
    then show ?thesis by blast
  next
    case (Some r)
    obtain g p where r: "r = (g, p)" by (cases r)
    with Some Cons.prems have eq: "pre = skipped" "g = grp" "p = post"
      by simp_all
    from matchHere_sound[of opn cls "c # s" g p] Some r eq
    have "c # s = [] @ opn @ grp @ cls @ post \<and> grp \<noteq> [] \<and> list_all isScoreChar grp"
      by simp
    with eq(1) show ?thesis by (intro exI[of _ "[]"]) simp
  qed
qed

lemma matchHere_complete:
  assumes "cls \<noteq> []" "\<not> isScoreChar (hd cls)" "grp \<noteq> []" "list_all isScoreChar grp"
  shows "matchHere opn cls (opn @ grp @ cls @ post) = Some (grp, post)"
proof -
  obtain c cs where cls: "cls = c # cs" using assms(1) by (cases cls) auto
  have nc: "\<not> isScoreChar c" using assms(2) cls by simp
  have all: "\<forall>x \<in> set grp. isScoreChar x"
    using assms(4) by (simp add: list_all_iff)
  have tw: "takeWhile isScoreChar (grp @ c # cs @ post) = grp"
    using all nc by (simp add: takeWhile_append2)
  have dw: "dropWhile isScoreChar (grp @ c # cs @ post) = c # cs @ post"
    using all nc by (simp add: dropWhile_append2)
  show ?thesis
    using assms(3) by (simp add: matchHere_def cls tw dw)
qed

lemma regexSearch_complete:
  assumes "cls \<noteq> []" "\<not> isScoreChar (hd cls)" "grp \<noteq> []" "list_all isScoreChar grp"
  shows "regexSearch opn cls skipped (pre @ opn @ grp @ cls @ post) \<noteq> None"
proof (induction pre arbitrary: skipped)
  case Nil
  have m: "matchHere opn cls (opn @ grp @ cls @ post) = Some (grp, post)"
    using assms by (rule matchHere_complete)
  show ?case
  proof (cases "opn @ grp @ cls @ post")
    case Nil
    with assms(3) show ?thesis by simp
  next
    case (Cons c s)
    with m show ?thesis by simp
  qed
next
  case (Cons c pre)
  show ?case
    using Cons.IH[of "skipped @ [c]"]
    by (cases "matchHere opn cls (c # pre @ opn @ grp @ cls @ post)") auto
qed

lemma regexSearch_None_iff:
  assumes "cls \<noteq> []" "\<not> isScoreChar (hd cls)"
  shows "regexSearch opn cls [] r = None \<longleftrightarrow> \<not> containsDelimited opn cls r"
proof
  assume none: "regexSearch opn cls [] r = None"
  show "\<not> containsDelimited opn cls r"
  proof
    assume "containsDelimited opn cls r"
    then obtain pre grp post where "r = pre @ opn @ grp @ cls @ post" "grp \<noteq> []"
        "list_all isScoreChar grp"
      unfolding containsDelimited_def by blast
    with regexSearch_complete[OF assms, where grp = grp and skipped = "[]" and pre = pre
        and opn = opn and post = post]
    have "regexSearch opn cls [] r \<noteq> None" by simp
    with none show False by contradiction
  qed
next
  assume no: "\<not> containsDelimited opn cls r"
  show "regexSearch opn cls [] r = None"
  proof (cases "regexSearch opn cls [] r")
    case None
    then show ?thesis .
  next
    case (Some res)
    obtain pre grp post where "res = (pre, grp, post)" by (cases res)
    with Some regexSearch_sound[of opn cls "[]" r pre grp post]
    have "containsDelimited opn cls r"
      unfolding containsDelimited_def by auto
    with no show ?thesis by contradiction
  qed
qed

lemma scoreTag_None_iff: "scoreTag r = None \<longleftrightarrow> \<not> containsDelimited ''<score>'' ''</score>'' r"
  unfolding scoreTag_def
  by (rule regexSearch_None_iff) (simp_all add: isScoreChar_def)

lemma scoreSentence_None_iff:
  "scoreSentence r = None \<longleftrightarrow> \<not> containsDelimited ''confidence score of **'' ''**'' r"
  unfolding scoreSentence_def
  by (rule regexSearch_None_iff) (simp_all add: isScoreChar_def)

text \<open>
  Claim C7. For the response text \<open><score>0.42</score> looks risky\<close> the extracted
  confidence is 0.42 and the reason is \<open>looks risky\<close>; for every response text that
  contains neither a \<open><score>X</score>\<close> tag nor a sentence
  \<open>confidence score of **X**\<close> (\<open>X\<close> a non-empty run of digits and dots), the extracted
  confidence is 0.
\<close>

theorem getTradeConfidence_parsing:
  "getTradeConfidence (Body (Some ''<score>0.42</score> looks risky'')) =
      (Num (42 / 100), ''looks risky'')
   \<and> (\<not> containsDelimited ''<score>'' ''</score>'' r
        \<and> \<not> containsDelimited ''confidence score of **'' ''**'' r
      \<longrightarrow> fst (getTradeConfidence (Body (Some r))) = Num 0)"
proof (intro conjI impI)
  show "getTradeConfidence (Body (Some ''<score>0.42</score> looks risky'')) =
      (Num (42 / 100), ''looks risky'')"
    by (simp add: getTradeConfidence_def scoreTag_def matchHere_def isScoreChar_def
        parseFloat_def isDigit_def digitsValue_def digitValue_def trim_def isWhiteSpace_def)
next
  assume "\<not> containsDelimited ''<score>'' ''</score>'' r
        \<and> \<not> containsDelimited ''confidence score of **'' ''**'' r"
  then have "scoreTag r = None" "scoreSentence r = None"
    by (simp_all add: scoreTag_None_iff scoreSentence_None_iff)
  then show "fst (getTradeConfidence (Body (Some r))) = Num 0"
    by (simp add: getTradeConfidence_def)
qed

theorem getTradeConfidence_parsing_witness:
  "\<not> containsDelimited ''<score>'' ''</score>'' ''looks risky, score 0.9''
   \<and> \<not> containsDelimited ''confidence score of **'' ''**'' ''looks risky, score 0.9''
   \<and> getTradeConfidence (Body (Some ''looks risky, score 0.9'')) = (Num 0, ''looks risky, score 0.9'')"
proof -
  have a: "\<not> containsDelimited ''<score>'' ''</score>'' ''looks risky, score 0.9''"
    unfolding scoreTag_None_iff [symmetric]
    by (simp add: scoreTag_def matchHere_def)
  have b: "\<not> containsDelimited ''confidence score of **'' ''**'' ''looks risky, score 0.9''"
    unfolding scoreSentence_None_iff [symmetric]
    by (simp add: scoreSentence_def matchHere_def)
  have c: "snd (getTradeConfidence (Body (Some ''looks risky, score 0.9''))) = ''looks risky, score 0.9''"
    by (simp add: getTradeConfidence_def scoreTag_def matchHere_def trim_def isWhiteSpace_def)
  from a b c getTradeConfidence_parsing [of "''looks risky, score 0.9''"]
  show ?thesis by (simp add: prod_eq_iff)
qed

section \<open>Properties of the momentum bot\<close>

lemma exitCheck_pnl:
  "entryPrice \<noteq> 0 \<Longrightarrow>
     exitCheck sp entryPrice currentPrice =
       ((currentPrice - entryPrice) / entryPrice \<le> - stopLoss sp,
        (currentPrice - entryPrice) / entryPrice \<ge> takeProfit sp)"
  by (simp add: exitCheck_def Let_def)

lemma monitorLoop_skips_every_record:
  "monitorLoop e sp i ts s = (Inr (), s)"
  by (induction ts arbitrary: i) (simp_all add: prop_token_def)

lemma monitorOpenPositions_no_effect: "monitorOpenPositions e sp s = (Inr (), s)"
  by (simp add: monitorOpenPositions_def monitorLoop_skips_every_record)

text \<open>
  Claim C8, at the store that holds one position with entry price 100 on a tradable
  token, with \<open>takeProfit = 0.15\<close> and \<open>stopLoss = 0.05\<close>. At the current price 115 the
  exit test would report a take-profit (\<open>pnl = 0.15 \<ge> 0.15\<close>) and at 94 a stop-loss
  (\<open>pnl = -0.06 \<le> -0.05\<close>), but \<open>monitorOpenPositions\<close> never reaches the test: it
  skips the record at the guard on \<open>token.token\<close>, sends no closing trade and leaves the
  position in the store.
\<close>

theorem monitorOpenPositions_take_profit_not_taken:
  "getOpenTrades (tradeManager bot1) = [trade0]
   \<and> price trade0 = 100 \<and> toToken trade0 \<in> set TRADABLE_TOKEN_ADDRESSES
   \<and> takeProfit exitParameters = 15 / 100 \<and> stopLoss exitParameters = 5 / 100
   \<and> exitCheck exitParameters 100 115 = (False, True)
   \<and> monitorOpenPositions (env0 115) exitParameters bot1 = (Inr (), bot1)
   \<and> exitCheck exitParameters 100 94 = (True, False)
   \<and> monitorOpenPositions (env0 94) exitParameters bot1 = (Inr (), bot1)"
  by (simp add: monitorOpenPositions_def getOpenTrades_def bot1_def store0_def trade0_def
      TRADABLE_TOKEN_ADDRESSES_def exitParameters_def strategyParameters_def exitCheck_def
      prop_token_def)

lemma adaptStrategy_maxPositionSize:
  "0 \<le> maxPositionSize sp \<and> maxPositionSize sp \<le> 2 \<Longrightarrow>
   0 \<le> maxPositionSize (adaptStrategy pnl winRate sp) \<and> maxPositionSize (adaptStrategy pnl winRate sp) \<le> 2"
  by (simp add: adaptStrategy_def)


















section \<open>Properties of the intraday store and its trailing stop\<close>

lemma findIndex_Some: "findIndex P xs = Some i \<Longrightarrow> i < length xs \<and> P (xs ! i)"
proof (induction xs arbitrary: i)
  case Nil
  then show ?case by simp
next
  case (Cons x xs)
  show ?case
  proof (cases "P x")
    case True
    with Cons.prems show ?thesis by simp
  next
    case False
    with Cons.prems obtain j where "findIndex P xs = Some j" "i = Suc j"
      by auto
    with Cons.IH[of j] show ?thesis by simp
  qed
qed

lemma findIndex_None: "findIndex P xs = None \<Longrightarrow> x \<in> set xs \<Longrightarrow> \<not> P x"
  by (induction xs) (auto split: if_splits)

lemma same_id_same_ref:
  assumes "distinct (map f xs)" "x \<in> set xs" "y \<in> set xs" "f x = f y"
  shows "x = y"
  using assms by (auto simp: distinct_map dest: inj_onD)

text \<open>What the raise of a mark does to the store.\<close>

lemma raise_effect:
  fixes cp :: real and w :: "IntradayTrade write_outcome" and s :: intraday and trade :: nat
  assumes wf: "wellFormed s" and mem: "trade \<in> set (openTradeRefs s)"
  defines "raised \<equiv> (objects s trade)\<lparr>highWaterMark := Some cp\<rparr>"
  defines "s' \<equiv> snd (updateOpenTrade w (id' (objects s trade))
                      (\<lambda>t. t\<lparr>highWaterMark := Some cp\<rparr>)
                      (s\<lparr>objects := (objects s)(trade := raised)\<rparr>))"
  shows "\<exists>idx < length (openTradeRefs s).
           openTradeRefs s ! idx = trade
         \<and> openTradeRefs s' = (openTradeRefs s)[idx := nextRef s]
         \<and> nextRef s' = Suc (nextRef s)
         \<and> objects s' = (objects s)(trade := raised, nextRef s := raised)
         \<and> seen s' = seen s \<and> closing s' = closing s"
proof -
  let ?s1 = "s\<lparr>objects := (objects s)(trade := raised)\<rparr>"
  let ?k = "id' (objects s trade)"
  have ids: "id' (objects ?s1 r) = id' (objects s r)" for r
    by (simp add: raised_def)
  have P: "(\<lambda>r. id' (objects ?s1 r) = ?k) = (\<lambda>r. id' (objects s r) = ?k)"
    using ids by auto
  have dist: "distinct (map (\<lambda>r. id' (objects s r)) (openTradeRefs s))"
    using wf by (simp add: wellFormed_def)
  obtain idx where idx: "findIndex (\<lambda>r. id' (objects s r) = ?k) (openTradeRefs s) = Some idx"
    using findIndex_None[of "\<lambda>r. id' (objects s r) = ?k" "openTradeRefs s" trade] mem
    by (cases "findIndex (\<lambda>r. id' (objects s r) = ?k) (openTradeRefs s)") auto
  from findIndex_Some[OF idx] have lt: "idx < length (openTradeRefs s)"
    and same: "id' (objects s (openTradeRefs s ! idx)) = ?k" by simp_all
  have at: "openTradeRefs s ! idx = trade"
    using same_id_same_ref[OF dist _ mem same] lt by simp
  have "id' (objects ?s1 trade) = ?k" by (rule ids)
  have upd: "updateOpenTrade w ?k (\<lambda>t. t\<lparr>highWaterMark := Some cp\<rparr>) ?s1 =
      intradaySave w (?s1\<lparr>objects := (objects ?s1)(nextRef s := raised),
                          nextRef := Suc (nextRef s),
                          openTradeRefs := (openTradeRefs s)[idx := nextRef s]\<rparr>)"
    unfolding updateOpenTrade_def P
    by (simp add: idx at Let_def raised_def)
  have "openTradeRefs s' = (openTradeRefs s)[idx := nextRef s]
         \<and> nextRef s' = Suc (nextRef s)
         \<and> objects s' = (objects s)(trade := raised, nextRef s := raised)
         \<and> seen s' = seen s \<and> closing s' = closing s"
    unfolding s'_def upd by (cases w) (simp_all add: intradaySave_def)
  with lt at show ?thesis by blast
qed

lemma observed_append:
  "observed j (history @ [(k, p)]) = observed j history @ (if k = j then [p] else [])"
  by (simp add: observed_def)

lemma follows_other_id:
  "j \<noteq> id' x \<Longrightarrow> follows (history @ [(j, p)]) x = follows history x"
  by (simp add: follows_def observed_append)

lemma trackingI:
  assumes "distinct (map (\<lambda>r. id' (objects s r)) (openTradeRefs s))"
    and "\<And>r. r \<in> set (openTradeRefs s) \<Longrightarrow> r < nextRef s"
    and "\<And>r. r \<in> set (openTradeRefs s) \<Longrightarrow> follows (seen s) (objects s r)"
  shows "tracking s"
  using assms by (simp add: tracking_def wellFormed_def list_all_iff)

lemma trackingD:
  assumes "tracking s"
  shows "distinct (map (\<lambda>r. id' (objects s r)) (openTradeRefs s))"
    and "\<And>r. r \<in> set (openTradeRefs s) \<Longrightarrow> r < nextRef s"
    and "\<And>r. r \<in> set (openTradeRefs s) \<Longrightarrow> follows (seen s) (objects s r)"
    and "wellFormed s"
  using assms by (simp_all add: tracking_def wellFormed_def list_all_iff)

text \<open>The default of the mark changes nothing that monitoring reads.\<close>

lemma default_keeps_tracking:
  fixes s :: intraday and trade :: nat
  defines "s1 \<equiv> (if falsy (highWaterMark (objects s trade))
                then s\<lparr>objects := (objects s)
                        (trade := (objects s trade)\<lparr>highWaterMark := Some (price (objects s trade))\<rparr>)\<rparr>
                else s)"
  assumes tr: "tracking s" and mem: "trade \<in> set (openTradeRefs s)"
  shows "tracking s1" and "openTradeRefs s1 = openTradeRefs s"
    and "highWaterMark (objects s1 trade) = Some (markOf (objects s trade))"
    and "markOf (objects s1 trade) = markOf (objects s trade)"
    and "id' (objects s1 trade) = id' (objects s trade)"
    and "seen s1 = seen s"
    and "\<And>r. objects s1 r = (objects s r)\<lparr>highWaterMark := highWaterMark (objects s1 r)\<rparr>"
proof -
  show "objects s1 r = (objects s r)\<lparr>highWaterMark := highWaterMark (objects s1 r)\<rparr>" for r
    by (simp add: s1_def)
  have refs: "openTradeRefs s1 = openTradeRefs s" and nxt: "nextRef s1 = nextRef s"
    and sn: "seen s1 = seen s"
    by (simp_all add: s1_def)
  have other: "r \<noteq> trade \<Longrightarrow> objects s1 r = objects s r" for r
    by (simp add: s1_def)
  have hw: "highWaterMark (objects s1 trade) = Some (markOf (objects s trade))"
    by (cases "highWaterMark (objects s trade)") (auto simp: s1_def falsy_def markOf_def)
  have here: "id' (objects s1 trade) = id' (objects s trade)
      \<and> price (objects s1 trade) = price (objects s trade)"
    by (simp add: s1_def)
  then have "markOf (objects s1 trade) = markOf (objects s trade)"
    using hw by (cases "highWaterMark (objects s trade)") (auto simp: markOf_def)
  with here other have same: "id' (objects s1 r) = id' (objects s r)
      \<and> price (objects s1 r) = price (objects s r)
      \<and> markOf (objects s1 r) = markOf (objects s r)" for r
    by (cases "r = trade") simp_all
  have "follows (seen s1) (objects s1 r)" if "r \<in> set (openTradeRefs s1)" for r
  proof (cases "r = trade")
    case True
    from trackingD(3)[OF tr mem] show ?thesis
      unfolding True follows_def sn using same[of trade] hw by simp
  next
    case False
    with trackingD(3)[OF tr, of r] that show ?thesis
      by (simp add: other refs sn)
  qed
  moreover have "distinct (map (\<lambda>r. id' (objects s1 r)) (openTradeRefs s1))"
    using trackingD(1)[OF tr] by (simp add: refs same)
  moreover have "\<And>r. r \<in> set (openTradeRefs s1) \<Longrightarrow> r < nextRef s1"
    using trackingD(2)[OF tr] by (simp add: refs nxt)
  ultimately show "tracking s1" by (intro trackingI) auto
  show "openTradeRefs s1 = openTradeRefs s" by (rule refs)
  show "highWaterMark (objects s1 trade) = Some (markOf (objects s trade))" by (rule hw)
  show "markOf (objects s1 trade) = markOf (objects s trade)" using same by simp
  show "id' (objects s1 trade) = id' (objects s trade)" using same by simp
  show "seen s1 = seen s" by (rule sn)
qed

lemma Max_snoc:
  fixes p c :: real
  shows "Max (set (p # xs @ [c])) = max c (Max (set (p # xs)))"
proof -
  have e: "set (p # xs @ [c]) = insert c (set (p # xs))" by auto
  show ?thesis
    unfolding e by (rule Max_insert) simp_all
qed

text \<open>
  Observing a price for a position: if afterwards the mark that monitoring reads is the
  larger of the old mark and the price, and the property holds it, the position still
  follows the history.
\<close>

lemma follows_observe:
  assumes old: "follows history x"
    and same: "id' y = id' x" "price y = price x"
    and mark: "markOf y = max c (markOf x)"
    and stored: "highWaterMark y = Some (markOf y)"
  shows "follows (history @ [(id' x, c)]) y"
proof -
  from old have nonneg: "0 \<le> price x"
    and m: "markOf x = Max (set (price x # observed (id' x) history))"
    by (simp_all add: follows_def)
  have "observed (id' x) (history @ [(id' x, c)]) = observed (id' x) history @ [c]"
    by (simp add: observed_append)
  then have "Max (set (price x # observed (id' x) (history @ [(id' x, c)])))
      = max c (Max (set (price x # observed (id' x) history)))"
    by (simp only: Max_snoc)
  with m mark have "markOf y = Max (set (price y # observed (id' y) (history @ [(id' x, c)])))"
    by (simp only: same)
  with nonneg stored show ?thesis
    unfolding follows_def by (simp only: same) simp
qed

text \<open>A price that does not exceed the mark leaves the mark as the maximum.\<close>

lemma observe_below_keeps_tracking:
  assumes tr: "tracking s" and mem: "trade \<in> set (openTradeRefs s)"
    and hw: "highWaterMark (objects s trade) = Some (markOf (objects s trade))"
    and le: "cp \<le> markOf (objects s trade)"
  shows "tracking (s\<lparr>seen := seen s @ [(id' (objects s trade), cp)]\<rparr>)"
proof (rule trackingI)
  let ?s2 = "s\<lparr>seen := seen s @ [(id' (objects s trade), cp)]\<rparr>"
  show "distinct (map (\<lambda>r. id' (objects ?s2 r)) (openTradeRefs ?s2))"
    using trackingD(1)[OF tr] by simp
  show "r < nextRef ?s2" if "r \<in> set (openTradeRefs ?s2)" for r
    using trackingD(2)[OF tr, of r] that by simp
  show "follows (seen ?s2) (objects ?s2 r)" if "r \<in> set (openTradeRefs ?s2)" for r
  proof (cases "r = trade")
    case True
    have "markOf (objects s trade) = max cp (markOf (objects s trade))"
      using le by (simp add: max_def)
    from follows_observe[OF trackingD(3)[OF tr mem] refl refl this hw]
    show ?thesis unfolding True by simp
  next
    case False
    from that have r: "r \<in> set (openTradeRefs s)" by simp
    from False same_id_same_ref[OF trackingD(1)[OF tr] mem r]
    have "id' (objects s trade) \<noteq> id' (objects s r)" by auto
    with trackingD(3)[OF tr r] show ?thesis
      by (simp add: follows_other_id)
  qed
qed

text \<open>A price above the mark: the mark is raised to it, in a fresh object.\<close>

lemma observe_above_keeps_tracking:
  fixes cp :: real and w :: "IntradayTrade write_outcome" and s :: intraday and trade :: nat
  defines "s2 \<equiv> s\<lparr>seen := seen s @ [(id' (objects s trade), cp)]\<rparr>"
  defines "s3 \<equiv> snd (updateOpenTrade w (id' (objects s2 trade))
                      (\<lambda>t. t\<lparr>highWaterMark := Some cp\<rparr>)
                      (s2\<lparr>objects := (objects s2)
                          (trade := (objects s2 trade)\<lparr>highWaterMark := Some cp\<rparr>)\<rparr>))"
  assumes tr: "tracking s" and mem: "trade \<in> set (openTradeRefs s)"
    and gt: "cp > markOf (objects s trade)"
  shows "tracking s3"
    and "set (openTradeRefs s3) = insert (nextRef s) (set (openTradeRefs s) - {trade})"
    and "id' (objects s3 (nextRef s)) = id' (objects s trade)"
    and "id' (objects s3 trade) = id' (objects s trade)"
    and "seen s3 = seen s @ [(id' (objects s trade), cp)]"
    and "\<forall>r' \<in> set (openTradeRefs s3). \<exists>r \<in> set (openTradeRefs s).
           objects s3 r' = (objects s r)\<lparr>highWaterMark := highWaterMark (objects s3 r')\<rparr>"
proof -
  let ?k = "id' (objects s trade)"
  let ?n = "nextRef s"
  define raised where "raised = (objects s trade)\<lparr>highWaterMark := Some cp\<rparr>"
  have wf2: "wellFormed s2"
    using trackingD(4)[OF tr] by (simp add: s2_def wellFormed_def)
  have mem2: "trade \<in> set (openTradeRefs s2)"
    using mem by (simp add: s2_def)
  from raise_effect[OF wf2 mem2, of w cp]
  obtain idx where idx: "idx < length (openTradeRefs s)" "openTradeRefs s ! idx = trade"
    and refs3: "openTradeRefs s3 = (openTradeRefs s)[idx := ?n]"
    and next3: "nextRef s3 = Suc ?n"
    and objs3: "objects s3 = (objects s)(trade := raised, ?n := raised)"
    and seen3: "seen s3 = seen s @ [(?k, cp)]"
    unfolding s3_def raised_def by (auto simp: s2_def)
  have dist_ids: "distinct (map (\<lambda>r. id' (objects s r)) (openTradeRefs s))"
    by (rule trackingD(1)[OF tr])
  then have dist: "distinct (openTradeRefs s)"
    by (simp add: distinct_map)
  have below: "r < ?n" if "r \<in> set (openTradeRefs s)" for r
    using trackingD(2)[OF tr that] .
  have set3: "set (openTradeRefs s3) = insert ?n (set (openTradeRefs s) - {trade})"
    unfolding refs3 using set_update_distinct[OF dist idx(1)] idx(2) by simp
  have id_raised: "id' raised = ?k" and price_raised: "price raised = price (objects s trade)"
    by (simp_all add: raised_def)
  have old_obj: "objects s3 r = objects s r" if "r \<in> set (openTradeRefs s)" "r \<noteq> trade" for r
    using below[OF that(1)] that(2) by (simp add: objs3)
  have id3: "id' (objects s3 r) = id' (objects s r)" if "r \<in> set (openTradeRefs s)" for r
    using below[OF that] id_raised by (cases "r = trade") (simp_all add: objs3)
  have "map (\<lambda>r. id' (objects s3 r)) (openTradeRefs s3)
      = (map (\<lambda>r. id' (objects s3 r)) (openTradeRefs s))[idx := id' (objects s3 ?n)]"
    unfolding refs3 by (rule map_update)
  also have "map (\<lambda>r. id' (objects s3 r)) (openTradeRefs s)
      = map (\<lambda>r. id' (objects s r)) (openTradeRefs s)"
    using id3 by simp
  also have "id' (objects s3 ?n) = ?k"
    by (simp add: objs3 id_raised)
  also have "(map (\<lambda>r. id' (objects s r)) (openTradeRefs s))[idx := ?k]
      = map (\<lambda>r. id' (objects s r)) (openTradeRefs s)"
  proof -
    have "map (\<lambda>r. id' (objects s r)) (openTradeRefs s) ! idx = ?k"
      using idx by simp
    then show ?thesis
      by (metis list_update_id)
  qed
  finally have ids3: "map (\<lambda>r. id' (objects s3 r)) (openTradeRefs s3)
      = map (\<lambda>r. id' (objects s r)) (openTradeRefs s)" .
  from trackingD(3)[OF tr mem] have old: "follows (seen s) (objects s trade)" .
  then have nonneg: "0 \<le> price (objects s trade)"
    and m: "markOf (objects s trade) = Max (set (price (objects s trade) # observed ?k (seen s)))"
    by (simp_all add: follows_def)
  have "price (objects s trade) \<le> markOf (objects s trade)"
    unfolding m by (rule Max_ge) simp_all
  with nonneg gt have pos: "0 < cp" by simp
  then have mark_raised: "markOf raised = cp"
    by (simp add: raised_def markOf_def)
  have "follows (seen s @ [(?k, cp)]) raised"
  proof (rule follows_observe[OF old])
    show "id' raised = ?k" by (rule id_raised)
    show "price raised = price (objects s trade)" by (rule price_raised)
    show "markOf raised = max cp (markOf (objects s trade))"
      using gt by (simp add: mark_raised max_def)
    show "highWaterMark raised = Some (markOf raised)"
      by (simp add: mark_raised) (simp add: raised_def)
  qed
  then have new_follows: "follows (seen s3) (objects s3 ?n)"
    by (simp add: seen3 objs3)
  show "tracking s3"
  proof (rule trackingI)
    show "distinct (map (\<lambda>r. id' (objects s3 r)) (openTradeRefs s3))"
      unfolding ids3 by (rule dist_ids)
    show "r < nextRef s3" if "r \<in> set (openTradeRefs s3)" for r
      using that below[of r] by (auto simp: set3 next3)
    show "follows (seen s3) (objects s3 r)" if "r \<in> set (openTradeRefs s3)" for r
    proof (cases "r = ?n")
      case True
      with new_follows show ?thesis by simp
    next
      case False
      with that have r: "r \<in> set (openTradeRefs s)" "r \<noteq> trade"
        by (auto simp: set3)
      from same_id_same_ref[OF dist_ids mem r(1)] r(2)
      have "?k \<noteq> id' (objects s r)" by auto
      with trackingD(3)[OF tr r(1)] show ?thesis
        by (simp add: seen3 old_obj[OF r] follows_other_id)
    qed
  qed
  show "set (openTradeRefs s3) = insert ?n (set (openTradeRefs s) - {trade})" by (rule set3)
  show "id' (objects s3 ?n) = ?k" by (simp add: objs3 id_raised)
  show "id' (objects s3 trade) = ?k"
    using below[OF mem] by (simp add: objs3 id_raised)
  show "seen s3 = seen s @ [(?k, cp)]" by (rule seen3)
  show "\<forall>r' \<in> set (openTradeRefs s3). \<exists>r \<in> set (openTradeRefs s).
           objects s3 r' = (objects s r)\<lparr>highWaterMark := highWaterMark (objects s3 r')\<rparr>"
  proof
    fix r' assume r': "r' \<in> set (openTradeRefs s3)"
    show "\<exists>r \<in> set (openTradeRefs s).
           objects s3 r' = (objects s r)\<lparr>highWaterMark := highWaterMark (objects s3 r')\<rparr>"
    proof (cases "r' = ?n")
      case True
      have "objects s3 ?n = (objects s trade)\<lparr>highWaterMark := highWaterMark (objects s3 ?n)\<rparr>"
        by (simp add: objs3 raised_def)
      with mem True show ?thesis by blast
    next
      case False
      with r' have r: "r' \<in> set (openTradeRefs s)" "r' \<noteq> trade"
        by (auto simp: set3)
      have "objects s3 r' = (objects s r')\<lparr>highWaterMark := highWaterMark (objects s3 r')\<rparr>"
        by (simp add: old_obj[OF r])
      with r(1) show ?thesis by blast
    qed
  qed
qed

lemma closing_keeps_tracking: "tracking (s\<lparr>closing := c\<rparr>) = tracking s"
  by (simp add: tracking_def wellFormed_def)

lemma intradayRemove_effect:
  "openTradeRefs (snd (intradayRemove w k s)) = filter (\<lambda>r. id' (objects s r) \<noteq> k) (openTradeRefs s)
   \<and> objects (snd (intradayRemove w k s)) = objects s
   \<and> nextRef (snd (intradayRemove w k s)) = nextRef s
   \<and> seen (snd (intradayRemove w k s)) = seen s"
  by (cases w) (simp_all add: intradayRemove_def intradaySave_def Let_def)

lemma remove_keeps_tracking:
  assumes "tracking s"
  shows "tracking (snd (intradayRemove w k s))"
proof (rule trackingI)
  let ?s' = "snd (intradayRemove w k s)"
  note eff = intradayRemove_effect[of w k s]
  show "distinct (map (\<lambda>r. id' (objects ?s' r)) (openTradeRefs ?s'))"
    using trackingD(1)[OF assms] by (simp add: eff distinct_map_filter)
  show "r < nextRef ?s'" if "r \<in> set (openTradeRefs ?s')" for r
    using trackingD(2)[OF assms, of r] that by (simp add: eff)
  show "follows (seen ?s') (objects ?s' r)" if "r \<in> set (openTradeRefs ?s')" for r
    using trackingD(3)[OF assms, of r] that by (simp add: eff)
qed

lemma descendsI:
  assumes "seen s' = seen s @ extra" "\<forall>kp \<in> set extra. \<exists>j. priceNow e j = Price (snd kp)"
    and "\<forall>r' \<in> set (openTradeRefs s'). \<exists>r \<in> set (openTradeRefs s).
            objects s' r' = (objects s r)\<lparr>highWaterMark := highWaterMark (objects s' r')\<rparr>"
  shows "descends e s s'"
  using assms unfolding descends_def by blast

lemma descends_same_objects:
  assumes "seen s' = seen s @ extra" "\<forall>kp \<in> set extra. \<exists>j. priceNow e j = Price (snd kp)"
    and "set (openTradeRefs s') \<subseteq> set (openTradeRefs s)" and "objects s' = objects s"
  shows "descends e s s'"
proof (rule descendsI[OF assms(1,2)])
  show "\<forall>r' \<in> set (openTradeRefs s'). \<exists>r \<in> set (openTradeRefs s).
            objects s' r' = (objects s r)\<lparr>highWaterMark := highWaterMark (objects s' r')\<rparr>"
  proof
    fix r' assume "r' \<in> set (openTradeRefs s')"
    with assms(3) have "r' \<in> set (openTradeRefs s)" by auto
    moreover have "objects s' r' = (objects s r')\<lparr>highWaterMark := highWaterMark (objects s' r')\<rparr>"
      by (simp add: assms(4))
    ultimately show "\<exists>r \<in> set (openTradeRefs s).
            objects s' r' = (objects s r)\<lparr>highWaterMark := highWaterMark (objects s' r')\<rparr>"
      by blast
  qed
qed

lemma descends_refl: "descends e s s"
  by (rule descends_same_objects[where extra = "[]"]) simp_all


lemma descends_trans:
  assumes "descends e s s'" "descends e s' s''"
  shows "descends e s s''"
proof -
  from assms obtain m1 m2 where m: "seen s' = seen s @ m1" "seen s'' = seen s' @ m2"
    and p: "\<forall>kp \<in> set m1. \<exists>j. priceNow e j = Price (snd kp)"
           "\<forall>kp \<in> set m2. \<exists>j. priceNow e j = Price (snd kp)"
    unfolding descends_def by blast
  then have hist: "seen s'' = seen s @ (m1 @ m2)
      \<and> (\<forall>kp \<in> set (m1 @ m2). \<exists>j. priceNow e j = Price (snd kp))"
    by auto
  have "\<exists>r \<in> set (openTradeRefs s).
            objects s'' r'' = (objects s r)\<lparr>highWaterMark := highWaterMark (objects s'' r'')\<rparr>"
    if "r'' \<in> set (openTradeRefs s'')" for r''
  proof -
    from assms(2) that obtain r' where r': "r' \<in> set (openTradeRefs s')"
      "objects s'' r'' = (objects s' r')\<lparr>highWaterMark := highWaterMark (objects s'' r'')\<rparr>"
      unfolding descends_def by blast
    from assms(1) r'(1) obtain r where r: "r \<in> set (openTradeRefs s)"
      "objects s' r' = (objects s r)\<lparr>highWaterMark := highWaterMark (objects s' r')\<rparr>"
      unfolding descends_def by blast
    have "objects s'' r'' = (objects s r)\<lparr>highWaterMark := highWaterMark (objects s'' r'')\<rparr>"
      by (subst r'(2), subst r(2)) simp
    with r(1) show ?thesis by blast
  qed
  with hist show ?thesis
    unfolding descends_def by blast
qed

text \<open>One iteration of the loop keeps the store tracking and the pending references open.\<close>

lemma trailing_iteration:
  assumes tr: "tracking s" and mem: "trade \<in> set (openTradeRefs s)"
    and sub: "set rest \<subseteq> set (openTradeRefs s)" and notin: "trade \<notin> set rest"
  shows "\<exists>s'. tracking s' \<and> set rest \<subseteq> set (openTradeRefs s') \<and> descends e s s'
           \<and> (trailingLoop e tsl i (trade # rest) s = trailingLoop e tsl (Suc i) rest s'
              \<or> trailingLoop e tsl i (trade # rest) s = (Inl RequestError, s'))"
proof -
  define k where "k = id' (objects s trade)"
  define mark0 where "mark0 = markOf (objects s trade)"
  define s1 where "s1 = (if falsy (highWaterMark (objects s trade))
                then s\<lparr>objects := (objects s)
                        (trade := (objects s trade)\<lparr>highWaterMark := Some (price (objects s trade))\<rparr>)\<rparr>
                else s)"
  note d = default_keeps_tracking[OF tr mem, folded s1_def]
  have tr1: "tracking s1" and refs1: "openTradeRefs s1 = openTradeRefs s"
    and hw1: "highWaterMark (objects s1 trade) = Some mark0"
    and mark1: "markOf (objects s1 trade) = mark0" and id1: "id' (objects s1 trade) = k"
    using d(1-5) by (simp_all add: mark0_def k_def)
  have mem1: "trade \<in> set (openTradeRefs s1)" and sub1: "set rest \<subseteq> set (openTradeRefs s1)"
    using mem sub by (simp_all add: refs1)
  have d1: "descends e s s1"
  proof (rule descendsI[where extra = "[]"])
    show "seen s1 = seen s @ []" using d(6) by simp
    show "\<forall>kp \<in> set []. \<exists>j. priceNow e j = Price (snd kp)" by simp
    show "\<forall>r' \<in> set (openTradeRefs s1). \<exists>r \<in> set (openTradeRefs s).
            objects s1 r' = (objects s r)\<lparr>highWaterMark := highWaterMark (objects s1 r')\<rparr>"
    proof
      fix r' assume "r' \<in> set (openTradeRefs s1)"
      then have "r' \<in> set (openTradeRefs s)" by (simp only: refs1)
      then show "\<exists>r \<in> set (openTradeRefs s).
            objects s1 r' = (objects s r)\<lparr>highWaterMark := highWaterMark (objects s1 r')\<rparr>"
        using d(7)[of r'] by (rule bexI[rotated])
    qed
  qed
  show ?thesis
  proof (cases "priceNow e i")
    case PriceRejects
    then have "trailingLoop e tsl i (trade # rest) s = (Inl RequestError, s1)"
      by (simp add: s1_def Let_def)
    with tr1 sub1 d1 show ?thesis by blast
  next
    case PriceNull
    then have "trailingLoop e tsl i (trade # rest) s = trailingLoop e tsl (Suc i) rest s1"
      by (simp add: s1_def Let_def)
    with tr1 sub1 d1 show ?thesis by blast
  next
    case (Price cp)
    define s2 where "s2 = s1\<lparr>seen := seen s1 @ [(id' (objects s1 trade), cp)]\<rparr>"
    define s3 where "s3 = (if cp > mark0 then
                      snd (updateOpenTrade (updateWrite e i) (id' (objects s2 trade))
                              (\<lambda>t. t\<lparr>highWaterMark := Some cp\<rparr>)
                              (s2\<lparr>objects := (objects s2)
                                  (trade := (objects s2 trade)\<lparr>highWaterMark := Some cp\<rparr>)\<rparr>))
                    else s2)"
    define markNow where "markNow = (if cp > mark0 then cp else mark0)"
    define s4 where "s4 = s3\<lparr>closing := closing s3 @ [objects s3 trade]\<rparr>"
    define s5 where "s5 = snd (intradayRemove (removeWrite e i) (id' (objects s4 trade)) s4)"
    have unfold: "trailingLoop e tsl i (trade # rest) s =
        (if cp \<le> markNow * (1 - tsl) then
           if closeAccepted e i then trailingLoop e tsl (Suc i) rest s5
           else (Inl RequestError, s4)
         else trailingLoop e tsl (Suc i) rest s3)"
      unfolding s5_def s4_def s3_def s2_def s1_def markNow_def mark0_def
      by (simp add: Price Let_def)
    have tr3: "tracking s3"
      and cur: "\<exists>c \<in> set (openTradeRefs s3). id' (objects s3 c) = k \<and> c \<notin> set rest"
      and sub3: "set rest \<subseteq> set (openTradeRefs s3)"
      and id3: "id' (objects s3 trade) = k"
    proof -
      show "tracking s3 "
      proof (cases "cp > mark0")
        case True
        then show ?thesis
          unfolding s3_def s2_def
          using observe_above_keeps_tracking(1)[OF tr1 mem1, of cp "updateWrite e i"]
          by (simp add: mark1)
      next
        case False
        then show ?thesis
          unfolding s3_def s2_def
          using observe_below_keeps_tracking[OF tr1 mem1, of cp] hw1 mark1
          by simp
      qed
      have below: "r < nextRef s1" if "r \<in> set (openTradeRefs s1)" for r
        using trackingD(2)[OF tr1 that] .
      show "\<exists>c \<in> set (openTradeRefs s3). id' (objects s3 c) = k \<and> c \<notin> set rest"
      proof (cases "cp > mark0")
        case True
        have "nextRef s1 \<in> set (openTradeRefs s3)"
          "id' (objects s3 (nextRef s1)) = k"
          unfolding s3_def s2_def
          using True observe_above_keeps_tracking(2,3)[OF tr1 mem1, of cp "updateWrite e i"]
          by (simp_all add: mark1 id1)
        moreover have "nextRef s1 \<notin> set rest"
          using sub1 below by auto
        ultimately show ?thesis by blast
      next
        case False
        then have "s3 = s2" by (simp add: s3_def)
        then show ?thesis
          using mem1 id1 notin by (intro bexI[of _ trade]) (simp_all add: s2_def)
      qed
      show "set rest \<subseteq> set (openTradeRefs s3)"
      proof (cases "cp > mark0")
        case True
        have "set (openTradeRefs s3) = insert (nextRef s1) (set (openTradeRefs s1) - {trade})"
          unfolding s3_def s2_def
          using True observe_above_keeps_tracking(2)[OF tr1 mem1, of cp "updateWrite e i"]
          by (simp add: mark1)
        with sub1 notin show ?thesis by auto
      next
        case False
        then show ?thesis using sub1 by (simp add: s3_def s2_def)
      qed
      show "id' (objects s3 trade) = k"
      proof (cases "cp > mark0")
        case True
        then show ?thesis
          unfolding s3_def s2_def
          using observe_above_keeps_tracking(4)[OF tr1 mem1, of cp "updateWrite e i"]
          by (simp add: mark1 id1)
      next
        case False
        then show ?thesis using id1 by (simp add: s3_def s2_def)
      qed
    qed
    have d13: "descends e s1 s3"
    proof (cases "cp > mark0")
      case True
      then have eq3: "s3 = snd (updateOpenTrade (updateWrite e i)
                 (id' (objects (s1\<lparr>seen := seen s1 @ [(id' (objects s1 trade), cp)]\<rparr>) trade))
                 (\<lambda>t. t\<lparr>highWaterMark := Some cp\<rparr>)
                 (s1\<lparr>seen := seen s1 @ [(id' (objects s1 trade), cp)]\<rparr>
                    \<lparr>objects := (objects (s1\<lparr>seen := seen s1 @ [(id' (objects s1 trade), cp)]\<rparr>))
                       (trade := (objects (s1\<lparr>seen := seen s1 @ [(id' (objects s1 trade), cp)]\<rparr>) trade)
                          \<lparr>highWaterMark := Some cp\<rparr>)\<rparr>))"
        unfolding s3_def s2_def by (simp only: if_True)
      from True have gt: "cp > markOf (objects s1 trade)" by (simp only: mark1)
      note o = observe_above_keeps_tracking(5,6)[OF tr1 mem1 gt, of "updateWrite e i"]
      show ?thesis
        unfolding eq3
      proof (rule descendsI[OF o(1) _ o(2)])
        show "\<forall>kp \<in> set [(id' (objects s1 trade), cp)]. \<exists>j. priceNow e j = Price (snd kp)"
          using Price by auto
      qed
    next
      case False
      then have eq: "s3 = s2" by (simp add: s3_def)
      show ?thesis
        unfolding eq
      proof (rule descends_same_objects[where extra = "[(id' (objects s1 trade), cp)]"])
        show "seen s2 = seen s1 @ [(id' (objects s1 trade), cp)]"
          by (simp add: s2_def)
        show "\<forall>kp \<in> set [(id' (objects s1 trade), cp)]. \<exists>j. priceNow e j = Price (snd kp)"
          using Price by auto
        show "set (openTradeRefs s2) \<subseteq> set (openTradeRefs s1)" by (simp add: s2_def)
        show "objects s2 = objects s1" by (simp add: s2_def)
      qed
    qed
    have d3: "descends e s s3"
      by (rule descends_trans[OF d1 d13])
    have d34: "descends e s3 s4"
      by (rule descends_same_objects[where extra = "[]"]) (simp_all add: s4_def)
    have d4: "descends e s s4"
      by (rule descends_trans[OF d3 d34])
    have d45: "descends e s4 s5"
      unfolding s5_def
      by (rule descends_same_objects[where extra = "[]"]) (simp_all add: intradayRemove_effect)
    have d5: "descends e s s5"
      by (rule descends_trans[OF d4 d45])
    have tr4: "tracking s4" and sub4: "set rest \<subseteq> set (openTradeRefs s4)"
      using tr3 sub3 by (simp_all add: s4_def closing_keeps_tracking)
    have tr5: "tracking s5"
      unfolding s5_def by (rule remove_keeps_tracking[OF tr4])
    have sub5: "set rest \<subseteq> set (openTradeRefs s5)"
    proof
      fix r assume r: "r \<in> set rest"
      with sub3 have r3: "r \<in> set (openTradeRefs s3)" by auto
      from cur obtain c where c: "c \<in> set (openTradeRefs s3)" "id' (objects s3 c) = k"
        "c \<notin> set rest" by blast
      with r have "r \<noteq> c" by auto
      with same_id_same_ref[OF trackingD(1)[OF tr3] r3 c(1)] c(2)
      have "id' (objects s3 r) \<noteq> k" by auto
      with r3 show "r \<in> set (openTradeRefs s5)"
        unfolding s5_def by (simp add: intradayRemove_effect s4_def id3)
    qed
    show ?thesis
    proof (cases "cp \<le> markNow * (1 - tsl)")
      case stop: True
      show ?thesis
      proof (cases "closeAccepted e i")
        case True
        with stop unfold
        have "trailingLoop e tsl i (trade # rest) s = trailingLoop e tsl (Suc i) rest s5"
          by simp
        with tr5 sub5 d5 show ?thesis by blast
      next
        case False
        with stop unfold
        have "trailingLoop e tsl i (trade # rest) s = (Inl RequestError, s4)"
          by simp
        with tr4 sub4 d4 show ?thesis by blast
      qed
    next
      case False
      with unfold
      have "trailingLoop e tsl i (trade # rest) s = trailingLoop e tsl (Suc i) rest s3"
        by simp
      with tr3 sub3 d3 show ?thesis by blast
    qed
  qed
qed

lemma trailingLoop_keeps_tracking:
  assumes "tracking s" "set snapshot \<subseteq> set (openTradeRefs s)" "distinct snapshot"
  shows "tracking (snd (trailingLoop e tsl i snapshot s))
       \<and> descends e s (snd (trailingLoop e tsl i snapshot s))"
  using assms
proof (induction snapshot arbitrary: i s)
  case Nil
  then show ?case by (simp add: descends_refl)
next
  case (Cons trade rest)
  from Cons.prems have mem: "trade \<in> set (openTradeRefs s)"
    and sub: "set rest \<subseteq> set (openTradeRefs s)" and notin: "trade \<notin> set rest"
    and dist: "distinct rest" by simp_all
  from trailing_iteration[OF Cons.prems(1) mem sub notin, of e tsl i]
  obtain s' where s': "tracking s'" "set rest \<subseteq> set (openTradeRefs s')"
    and desc: "descends e s s'"
    and step: "trailingLoop e tsl i (trade # rest) s = trailingLoop e tsl (Suc i) rest s'
              \<or> trailingLoop e tsl i (trade # rest) s = (Inl RequestError, s')"
    by blast
  from step show ?case
  proof
    assume eq: "trailingLoop e tsl i (trade # rest) s = trailingLoop e tsl (Suc i) rest s'"
    from Cons.IH[OF s' dist, of "Suc i"]
    have "tracking (snd (trailingLoop e tsl (Suc i) rest s'))"
      and "descends e s' (snd (trailingLoop e tsl (Suc i) rest s'))" by simp_all
    with desc show ?thesis
      unfolding eq by (blast intro: descends_trans)
  next
    assume "trailingLoop e tsl i (trade # rest) s = (Inl RequestError, s')"
    with s'(1) desc show ?thesis by simp
  qed
qed

lemma monitorTrailingStops_keeps_tracking:
  assumes "tracking s"
  shows "tracking (snd (monitorTrailingStops e tsl s))"
    and "descends e s (snd (monitorTrailingStops e tsl s))"
proof -
  have "distinct (openTradeRefs s)"
    using trackingD(1)[OF assms] by (simp add: distinct_map)
  with assms have "tracking (snd (trailingLoop e tsl 0 (openTradeRefs s) s))
       \<and> descends e s (snd (trailingLoop e tsl 0 (openTradeRefs s) s))"
    by (intro trailingLoop_keeps_tracking) simp_all
  then show "tracking (snd (monitorTrailingStops e tsl s))"
    and "descends e s (snd (monitorTrailingStops e tsl s))"
    unfolding monitorTrailingStops_def by simp_all
qed

lemma monitoringPasses_keeps_tracking:
  "tracking s \<Longrightarrow> tracking (monitoringPasses es tsl s)"
  unfolding monitoringPasses_def
  by (induction es arbitrary: s) (simp_all add: monitorTrailingStops_keeps_tracking)

lemma observed_append2: "observed k (h1 @ h2) = observed k h1 @ observed k h2"
  by (simp add: observed_def)

lemma observed_price_answered:
  assumes "p \<in> set (observed k extra)" "\<forall>kp \<in> set extra. \<exists>j. priceNow e j = Price (snd kp)"
  shows "\<exists>j. priceNow e j = Price p"
  using assms by (auto simp: observed_def)

lemma followsD:
  assumes "follows history x"
  shows "0 \<le> price x"
    and "markOf x = Max (set (price x # observed (id' x) history))"
    and "observed (id' x) history = [] \<or> highWaterMark x = Some (markOf x)"
  using assms unfolding follows_def by blast+

text \<open>In one pass a mark is only ever raised, and only to a price the pass obtained.\<close>

lemma pass_raises_only:
  assumes tr: "tracking s"
  shows "\<forall>y \<in> set (openValues (snd (monitorTrailingStops e tsl s))).
           \<exists>x \<in> set (openValues s).
             y = x\<lparr>highWaterMark := highWaterMark y\<rparr> \<and> markOf x \<le> markOf y
             \<and> (markOf y = markOf x \<or> (\<exists>j. priceNow e j = Price (markOf y) \<and> markOf x < markOf y))"
proof
  let ?s' = "snd (monitorTrailingStops e tsl s)"
  fix y assume "y \<in> set (openValues ?s')"
  then obtain r' where r': "r' \<in> set (openTradeRefs ?s')" "y = objects ?s' r'"
    by (auto simp: openValues_def)
  note tr' = monitorTrailingStops_keeps_tracking(1)[OF tr, of e tsl]
  note desc = monitorTrailingStops_keeps_tracking(2)[OF tr, of e tsl]
  from desc obtain extra where hist: "seen ?s' = seen s @ extra"
    and answered: "\<forall>kp \<in> set extra. \<exists>j. priceNow e j = Price (snd kp)"
    unfolding descends_def by blast
  from desc r'(1) obtain r where r: "r \<in> set (openTradeRefs s)"
    and same: "objects ?s' r' = (objects s r)\<lparr>highWaterMark := highWaterMark (objects ?s' r')\<rparr>"
    unfolding descends_def by blast
  define x where "x = objects s r"
  have yx: "y = x\<lparr>highWaterMark := highWaterMark y\<rparr>"
    unfolding x_def r'(2) by (rule same)
  have "id' y = id' (x\<lparr>highWaterMark := highWaterMark y\<rparr>)"
    "price y = price (x\<lparr>highWaterMark := highWaterMark y\<rparr>)"
    by (rule arg_cong[OF yx])+
  then have idp: "id' y = id' x" "price y = price x"
    by simp_all
  define A where "A = set (price x # observed (id' x) (seen s))"
  define B where "B = set (observed (id' x) extra)"
  have mx: "markOf x = Max A"
    unfolding x_def A_def by (rule followsD(2)[OF trackingD(3)[OF tr r]])
  have "markOf y = Max (set (price y # observed (id' y) (seen ?s')))"
    unfolding r'(2) by (rule followsD(2)[OF trackingD(3)[OF tr' r'(1)]])
  moreover have "set (price y # observed (id' y) (seen ?s')) = A \<union> B"
    unfolding idp hist observed_append2 A_def B_def by auto
  ultimately have my: "markOf y = Max (A \<union> B)"
    by presburger
  have fin: "finite A" "A \<noteq> {}" "finite (A \<union> B)" "A \<union> B \<noteq> {}"
    by (simp_all add: A_def B_def)
  have le: "markOf x \<le> markOf y"
    unfolding mx my using fin by (intro Max_mono) auto
  have "Max (A \<union> B) \<in> A \<union> B"
    using fin(3,4) by (rule Max_in)
  then have "markOf y \<in> A \<or> markOf y \<in> B"
    by (simp add: my)
  then have "markOf y = markOf x \<or> (\<exists>j. priceNow e j = Price (markOf y) \<and> markOf x < markOf y)"
  proof
    assume "markOf y \<in> A"
    then have "markOf y \<le> markOf x"
      unfolding mx using fin(1) by (intro Max_ge)
    with le show ?thesis by simp
  next
    assume "markOf y \<in> B"
    then have "\<exists>j. priceNow e j = Price (markOf y)"
      unfolding B_def using answered by (rule observed_price_answered)
    with le show ?thesis by (cases "markOf y = markOf x") auto
  qed
  with yx le r show "\<exists>x \<in> set (openValues s).
             y = x\<lparr>highWaterMark := highWaterMark y\<rparr> \<and> markOf x \<le> markOf y
             \<and> (markOf y = markOf x \<or> (\<exists>j. priceNow e j = Price (markOf y) \<and> markOf x < markOf y))"
    unfolding x_def openValues_def by (intro bexI[of _ "objects s r"]) auto
qed

lemma initial_tracking:
  assumes "wellFormed s" and "seen s = []"
    and "\<forall>x \<in> set (openValues s). 0 \<le> price x \<and> markOf x = price x"
  shows "tracking s"
  using assms by (simp add: tracking_def list_all_iff follows_def observed_def openValues_def)

text \<open>
  Claim C9. Take a well-formed intraday store whose positions have non-negative entry
  prices and a mark that is missing or equal to the entry price, as \<open>executeTrades\<close>
  records them, and run any number of monitoring passes. Then for every position that is
  still open, the mark that monitoring reads (the entry price while \<open>highWaterMark\<close> is
  missing) is the maximum of the entry price and all prices observed for the position,
  and \<open>highWaterMark\<close> holds that mark once a price was observed. In one more pass every
  open position is an earlier one with at most \<open>highWaterMark\<close> changed, its mark has not
  decreased, and if it changed it was raised to a current price of that pass that
  exceeded it.
\<close>

theorem highWaterMark_is_running_maximum:
  assumes "wellFormed s" and "seen s = []"
    and "\<forall>x \<in> set (openValues s). 0 \<le> price x \<and> markOf x = price x"
  shows "(\<forall>x \<in> set (openValues (monitoringPasses es tsl s)).
            markOf x = Max (set (price x # observed (id' x) (seen (monitoringPasses es tsl s))))
          \<and> (observed (id' x) (seen (monitoringPasses es tsl s)) = []
              \<or> highWaterMark x = Some (markOf x)))
       \<and> (\<forall>y \<in> set (openValues (snd (monitorTrailingStops e tsl (monitoringPasses es tsl s)))).
            \<exists>x \<in> set (openValues (monitoringPasses es tsl s)).
              y = x\<lparr>highWaterMark := highWaterMark y\<rparr> \<and> markOf x \<le> markOf y
              \<and> (markOf y = markOf x
                  \<or> (\<exists>j. priceNow e j = Price (markOf y) \<and> markOf x < markOf y)))"
proof -
  have "tracking s" using assms by (rule initial_tracking)
  then have tr: "tracking (monitoringPasses es tsl s)"
    by (rule monitoringPasses_keeps_tracking)
  have "\<forall>x \<in> set (openValues (monitoringPasses es tsl s)).
            markOf x = Max (set (price x # observed (id' x) (seen (monitoringPasses es tsl s))))
          \<and> (observed (id' x) (seen (monitoringPasses es tsl s)) = []
              \<or> highWaterMark x = Some (markOf x))"
  proof
    fix x assume "x \<in> set (openValues (monitoringPasses es tsl s))"
    then obtain r where r: "r \<in> set (openTradeRefs (monitoringPasses es tsl s))"
      and x: "x = objects (monitoringPasses es tsl s) r"
      by (auto simp: openValues_def)
    from followsD(2,3)[OF trackingD(3)[OF tr r]]
    show "markOf x = Max (set (price x # observed (id' x) (seen (monitoringPasses es tsl s))))
          \<and> (observed (id' x) (seen (monitoringPasses es tsl s)) = []
              \<or> highWaterMark x = Some (markOf x))"
      unfolding x by (rule conjI)
  qed
  moreover note pass_raises_only[OF tr, of e tsl]
  ultimately show ?thesis by (rule conjI)
qed

lemma two_passes_run: "monitoringPasses [priceEnv 105, priceEnv 104] (15 / 1000) intraday0 =
  intraday0\<lparr> objects := (objects intraday0)(0 := position0\<lparr>highWaterMark := Some 105\<rparr>,
                                          1 := position0\<lparr>highWaterMark := Some 105\<rparr>),
             nextRef := 2, openTradeRefs := [1],
             intradayDisk := Holds [position0\<lparr>highWaterMark := Some 105\<rparr>],
             intradayWrites := 1,
             seen := [(''t-1'', 105), (''t-1'', 104)] \<rparr>"
  by (simp add: monitoringPasses_def monitorTrailingStops_def intraday0_def priceEnv_def
      position0_def markOf_def falsy_def updateOpenTrade_def intradaySave_def openValues_def
      Let_def)

theorem highWaterMark_is_running_maximum_witness:
  "wellFormed intraday0 \<and> seen intraday0 = []
   \<and> map price (openValues intraday0) = [100] \<and> map markOf (openValues intraday0) = [100]
   \<and> map highWaterMark (openValues intraday0) = [None]
   \<and> map highWaterMark
        (openValues (monitoringPasses [priceEnv 105, priceEnv 104] (15 / 1000) intraday0))
       = [Some 105]
   \<and> observed ''t-1'' (seen (monitoringPasses [priceEnv 105, priceEnv 104] (15 / 1000) intraday0))
       = [105, 104]
   \<and> map highWaterMark
        (openValues (snd (monitorTrailingStops (priceEnv 110) (15 / 1000)
           (monitoringPasses [priceEnv 105, priceEnv 104] (15 / 1000) intraday0))))
       = [Some 110]"
  using highWaterMark_is_running_maximum [of intraday0 "[priceEnv 105, priceEnv 104]"
      "15 / 1000" "priceEnv 110"]
  unfolding two_passes_run
  by (simp add: monitorTrailingStops_def intraday0_def priceEnv_def
      position0_def markOf_def falsy_def updateOpenTrade_def intradaySave_def openValues_def
      Let_def wellFormed_def observed_def)

end
